theory Spec2Isabelle
  imports Main "HOL-Library.Char_ord" "HOL-Library.List_Lexorder" "HOL-Library.Multiset"
begin

section \<open>Go strings\<close>

text \<open>
  A Go string is a sequence of bytes; \<open>string\<close> (a list of 8-bit characters) models it
  byte by byte.  The functions below are the ones of package \<open>strings\<close> that
  \<open>template.go\<close> calls.  The order on strings (\<open><\<close> of Go) is the bytewise
  lexicographic order of \<open>Char_ord\<close> and \<open>List_Lexorder\<close>.
\<close>

definition HasPrefix :: "string \<Rightarrow> string \<Rightarrow> bool" where
  "HasPrefix s p = (take (length p) s = p)"

definition HasSuffix :: "string \<Rightarrow> string \<Rightarrow> bool" where
  "HasSuffix s p = (length p \<le> length s \<and> drop (length s - length p) s = p)"

definition TrimPrefix :: "string \<Rightarrow> string \<Rightarrow> string" where
  "TrimPrefix s p = (if HasPrefix s p then drop (length p) s else s)"

text \<open>\<open>strings.Index\<close>: the byte index of the first occurrence, or \<open>-1\<close>.\<close>

fun Index :: "string \<Rightarrow> string \<Rightarrow> int" where
  "Index [] sub = (if sub = [] then 0 else - 1)"
| "Index (c # cs) sub =
     (if HasPrefix (c # cs) sub then 0
      else if Index cs sub < 0 then - 1 else Index cs sub + 1)"

definition Contains :: "string \<Rightarrow> string \<Rightarrow> bool" where
  "Contains s sub = (0 \<le> Index s sub)"

text \<open>
  \<open>strings.ReplaceAll(s, old, "")\<close>, the only form in which the source calls
  \<open>ReplaceAll\<close>: the non-overlapping occurrences of \<open>old\<close> are removed from left to
  right.  For an empty \<open>old\<close> Go inserts the (empty) replacement between the runes, which
  leaves \<open>s\<close> as it is.
\<close>

function stripAll :: "string \<Rightarrow> string \<Rightarrow> string" where
  "stripAll [] old = []"
| "stripAll (c # cs) old =
     (if old \<noteq> [] \<and> HasPrefix (c # cs) old
      then stripAll (drop (length old) (c # cs)) old
      else c # stripAll cs old)"
  by pat_completeness auto
termination
  by (relation "measure (\<lambda>(s, old). length s)") auto

text \<open>
  \<open>strings.TrimLeft(s, cutset)\<close> for a cutset of ASCII characters: the leading bytes that
  belong to the cutset are dropped (a byte of a multi-byte rune is never an ASCII
  character).
\<close>

definition TrimLeft :: "string \<Rightarrow> string \<Rightarrow> string" where
  "TrimLeft s cutset = dropWhile (\<lambda>c. c \<in> set cutset) s"

text \<open>
  \<open>strings.TrimSpace\<close> removes leading and trailing white space as Unicode defines it.
  \<open>asciiSpace\<close> are the six ASCII white-space bytes, \<open>unicodeSpace\<close> the UTF-8 encodings of
  the other code points of \<open>unicode.IsSpace\<close> (U+0085, U+00A0, U+1680, U+2000 to U+200A,
  U+2028, U+2029, U+202F, U+205F, U+3000).
\<close>

definition asciiSpace :: "char list" where
  "asciiSpace = [CHR 0x09, CHR 0x0A, CHR 0x0B, CHR 0x0C, CHR 0x0D, CHR 0x20]"

definition unicodeSpace :: "string list" where
  "unicodeSpace =
     [[CHR 0xC2, CHR 0x85], [CHR 0xC2, CHR 0xA0], [CHR 0xE1, CHR 0x9A, CHR 0x80],
      [CHR 0xE2, CHR 0x80, CHR 0x80], [CHR 0xE2, CHR 0x80, CHR 0x81],
      [CHR 0xE2, CHR 0x80, CHR 0x82], [CHR 0xE2, CHR 0x80, CHR 0x83],
      [CHR 0xE2, CHR 0x80, CHR 0x84], [CHR 0xE2, CHR 0x80, CHR 0x85],
      [CHR 0xE2, CHR 0x80, CHR 0x86], [CHR 0xE2, CHR 0x80, CHR 0x87],
      [CHR 0xE2, CHR 0x80, CHR 0x88], [CHR 0xE2, CHR 0x80, CHR 0x89],
      [CHR 0xE2, CHR 0x80, CHR 0x8A], [CHR 0xE2, CHR 0x80, CHR 0xA8],
      [CHR 0xE2, CHR 0x80, CHR 0xA9], [CHR 0xE2, CHR 0x80, CHR 0xAF],
      [CHR 0xE2, CHR 0x81, CHR 0x9F], [CHR 0xE3, CHR 0x80, CHR 0x80]]"

text \<open>The number of bytes of the white-space rune the string starts with (0 if none).\<close>

definition spaceWidth :: "string \<Rightarrow> nat" where
  "spaceWidth s =
     (case s of
        [] \<Rightarrow> 0
      | c # _ \<Rightarrow>
          if c \<in> set asciiSpace then 1
          else (case filter (HasPrefix s) unicodeSpace of [] \<Rightarrow> 0 | w # _ \<Rightarrow> length w))"

fun trimSpaceLeft :: "string \<Rightarrow> nat \<Rightarrow> string" where
  "trimSpaceLeft [] skip = []"
| "trimSpaceLeft (c # cs) skip =
     (if 0 < skip then trimSpaceLeft cs (skip - 1)
      else if spaceWidth (c # cs) = 0 then c # cs
      else trimSpaceLeft cs (spaceWidth (c # cs) - 1))"

text \<open>
  From the right Go decodes the last rune; the encodings above start with a leading byte
  and continue with continuation bytes only, so the last rune is a white space exactly
  when one of them (or an ASCII white-space byte) is a suffix.
\<close>

definition spaceWidthRight :: "string \<Rightarrow> nat" where
  "spaceWidthRight s =
     (if s = [] then 0
      else if last s \<in> set asciiSpace then 1
      else (case filter (HasSuffix s) unicodeSpace of [] \<Rightarrow> 0 | w # _ \<Rightarrow> length w))"

fun trimSpaceRight :: "string \<Rightarrow> nat \<Rightarrow> string" where
  "trimSpaceRight s 0 = s"
| "trimSpaceRight s (Suc fuel) =
     (if spaceWidthRight s = 0 then s
      else trimSpaceRight (take (length s - spaceWidthRight s) s) fuel)"

definition TrimSpace :: "string \<Rightarrow> string" where
  "TrimSpace s = trimSpaceRight (trimSpaceLeft s 0) (length s)"

text \<open>
  \<open>strings.ToLower\<close> on ASCII text (the source lower-cases the names of descriptor
  enumerators only, which are ASCII): the letters \<open>A\<close> to \<open>Z\<close> move to \<open>a\<close> to \<open>z\<close>
  (32 is added to the byte, that is, bit 5 is set).
\<close>

definition toLowerChar :: "char \<Rightarrow> char" where
  "toLowerChar c =
     (if CHR ''A'' \<le> c \<and> c \<le> CHR ''Z''
      then (case c of Char b0 b1 b2 b3 b4 b5 b6 b7 \<Rightarrow> Char b0 b1 b2 b3 b4 True b6 b7)
      else c)"

definition ToLower :: "string \<Rightarrow> string" where
  "ToLower s = map toLowerChar s"

text \<open>\<open>strings.Split(s, sep)\<close> for a separator of one byte; the result is never empty.\<close>

fun Split :: "string \<Rightarrow> char \<Rightarrow> string list" where
  "Split [] sep = [[]]"
| "Split (c # cs) sep =
     (if c = sep then [] # Split cs sep
      else (case Split cs sep of [] \<Rightarrow> [[c]] | p # ps \<Rightarrow> (c # p) # ps))"

text \<open>
  \<open>regexp.MustCompile(tag + ".*").FindAllString(s, -1)\<close> for a tag without a newline:
  \<open>.\<close> matches every character but the newline, so a match is the leftmost occurrence
  of the tag in a line together with the rest of that line, and every line has at most
  one match.
\<close>

definition lineMatch :: "string \<Rightarrow> string \<Rightarrow> string list" where
  "lineMatch tag line =
     (if Contains line tag then [drop (nat (Index line tag)) line] else [])"

definition FindAllString :: "string \<Rightarrow> string \<Rightarrow> string list" where
  "FindAllString tag s = concat (map (lineMatch tag) (Split s (CHR 0x0A)))"

section \<open>Labels and types of the descriptor\<close>

datatype FieldDescriptorProto_Label = LABEL_OPTIONAL | LABEL_REQUIRED | LABEL_REPEATED

fun Label_String :: "FieldDescriptorProto_Label \<Rightarrow> string" where
  "Label_String LABEL_OPTIONAL = ''LABEL_OPTIONAL''"
| "Label_String LABEL_REQUIRED = ''LABEL_REQUIRED''"
| "Label_String LABEL_REPEATED = ''LABEL_REPEATED''"

definition labelName :: "FieldDescriptorProto_Label \<Rightarrow> bool \<Rightarrow> bool \<Rightarrow> string" where
  "labelName lbl proto3 proto3Opt =
     (if proto3 \<and> \<not> proto3Opt \<and> lbl \<noteq> LABEL_REPEATED then ''''
      else ToLower (TrimPrefix (Label_String lbl) ''LABEL_''))"

datatype FieldDescriptorProto_Type =
    TYPE_DOUBLE | TYPE_FLOAT | TYPE_INT64 | TYPE_UINT64 | TYPE_INT32 | TYPE_FIXED64
  | TYPE_FIXED32 | TYPE_BOOL | TYPE_STRING | TYPE_GROUP | TYPE_MESSAGE | TYPE_BYTES
  | TYPE_UINT32 | TYPE_ENUM | TYPE_SFIXED32 | TYPE_SFIXED64 | TYPE_SINT32 | TYPE_SINT64

fun Type_String :: "FieldDescriptorProto_Type \<Rightarrow> string" where
  "Type_String TYPE_DOUBLE = ''TYPE_DOUBLE''"
| "Type_String TYPE_FLOAT = ''TYPE_FLOAT''"
| "Type_String TYPE_INT64 = ''TYPE_INT64''"
| "Type_String TYPE_UINT64 = ''TYPE_UINT64''"
| "Type_String TYPE_INT32 = ''TYPE_INT32''"
| "Type_String TYPE_FIXED64 = ''TYPE_FIXED64''"
| "Type_String TYPE_FIXED32 = ''TYPE_FIXED32''"
| "Type_String TYPE_BOOL = ''TYPE_BOOL''"
| "Type_String TYPE_STRING = ''TYPE_STRING''"
| "Type_String TYPE_GROUP = ''TYPE_GROUP''"
| "Type_String TYPE_MESSAGE = ''TYPE_MESSAGE''"
| "Type_String TYPE_BYTES = ''TYPE_BYTES''"
| "Type_String TYPE_UINT32 = ''TYPE_UINT32''"
| "Type_String TYPE_ENUM = ''TYPE_ENUM''"
| "Type_String TYPE_SFIXED32 = ''TYPE_SFIXED32''"
| "Type_String TYPE_SFIXED64 = ''TYPE_SFIXED64''"
| "Type_String TYPE_SINT32 = ''TYPE_SINT32''"
| "Type_String TYPE_SINT64 = ''TYPE_SINT64''"

datatype MethodOptions_IdempotencyLevel = IDEMPOTENCY_UNKNOWN | NO_SIDE_EFFECTS | IDEMPOTENT

fun IdempotencyLevel_String :: "MethodOptions_IdempotencyLevel \<Rightarrow> string" where
  "IdempotencyLevel_String IDEMPOTENCY_UNKNOWN = ''IDEMPOTENCY_UNKNOWN''"
| "IdempotencyLevel_String NO_SIDE_EFFECTS = ''NO_SIDE_EFFECTS''"
| "IdempotencyLevel_String IDEMPOTENT = ''IDEMPOTENT''"

section \<open>Names and types\<close>

definition baseName :: "string \<Rightarrow> string" where
  "baseName name = last (Split name (CHR ''.''))"

text \<open>The three getters of the interface \<open>typeContainer\<close>.\<close>

record typeContainer =
  tc_Type :: FieldDescriptorProto_Type
  tc_TypeName :: string
  tc_Package :: string

definition parseType :: "typeContainer \<Rightarrow> string \<times> string \<times> string" where
  "parseType tc =
     (if HasPrefix (tc_TypeName tc) ''.''
      then (baseName (TrimPrefix (tc_TypeName tc) ''.''),
            TrimPrefix (TrimPrefix (tc_TypeName tc) ''.'') (tc_Package tc @ ''.''),
            TrimPrefix (tc_TypeName tc) ''.'')
      else (ToLower (TrimPrefix (Type_String (tc_Type tc)) ''TYPE_''),
            ToLower (TrimPrefix (Type_String (tc_Type tc)) ''TYPE_''),
            ToLower (TrimPrefix (Type_String (tc_Type tc)) ''TYPE_'')))"

section \<open>Options\<close>

text \<open>
  A value of type \<open>interface{}\<close> in an option map.  A Go map that is only read is a list
  of its entries, in the order in which \<open>range\<close> happens to visit them; the map that
  \<open>mergeOptions\<close> builds is the list of its entries in the order of insertion, and the
  result is \<open>None\<close> for Go's \<open>nil\<close>.
\<close>

datatype iface = BoolV bool | StringV string | IntV int

type_synonym 'v gomap = "(string \<times> 'v) list"

text \<open>The body of the inner loop of \<open>mergeOptions\<close>: a key already present is skipped.\<close>

definition mergeEntry :: "'v gomap \<Rightarrow> string \<times> 'v \<Rightarrow> 'v gomap" where
  "mergeEntry out kv = (if map_of out (fst kv) \<noteq> None then out else out @ [kv])"

definition mergeOptions :: "'v gomap list \<Rightarrow> 'v gomap option" where
  "mergeOptions opts =
     (let out = foldl (\<lambda>out m. foldl mergeEntry out m) [] opts
      in if length out = 0 then None else Some out)"

text \<open>
  \<open>commonOptions\<close>: the deprecation flag every options message has, and the idempotency
  level, which only \<open>MethodOptions\<close> can carry (the type switch of \<open>extractOptions\<close>).
\<close>

record commonOptions =
  co_Deprecated :: bool
  co_IdempotencyLevel :: "MethodOptions_IdempotencyLevel option"

definition extractOptions :: "commonOptions \<Rightarrow> iface gomap" where
  "extractOptions opts =
     (if co_Deprecated opts then [(''deprecated'', BoolV True)] else []) @
     (case co_IdempotencyLevel opts of
        None \<Rightarrow> []
      | Some l \<Rightarrow> [(''idempotency_level'', StringV (IdempotencyLevel_String l))])"

section \<open>The descriptors\<close>

text \<open>
  The input of the transformation: the descriptors of package \<open>protokit\<close>, each a record
  of what its accessors return.  A field \<open>Comments\<close> holds the text of
  \<open>GetComments().String()\<close>, \<open>Deprecated\<close> what \<open>GetOptions().GetDeprecated()\<close> returns,
  \<open>OptionExtensions\<close> the map of custom options.  A pointer that may be \<open>nil\<close> is an option.
\<close>

record EnumValueDescriptor =
  evd_Name :: string
  evd_Number :: int
  evd_Comments :: string
  evd_Deprecated :: bool
  evd_OptionExtensions :: "iface gomap"

record EnumDescriptor =
  ed_Name :: string
  ed_LongName :: string
  ed_FullName :: string
  ed_Comments :: string
  ed_Deprecated :: bool
  ed_OptionExtensions :: "iface gomap"
  ed_Values :: "EnumValueDescriptor list"

record FieldDescriptor =
  pf_Name :: string
  pf_Comments :: string
  pf_Label :: FieldDescriptorProto_Label
  pf_IsProto3 :: bool
  pf_Proto3Optional :: bool
  pf_Type :: FieldDescriptorProto_Type
  pf_TypeName :: string
  pf_Package :: string
  pf_DefaultValue :: string
  pf_Deprecated :: bool
  pf_OptionExtensions :: "iface gomap"
  pf_OneofIndex :: "int option"

text \<open>\<open>pe_Parent\<close>: the name, long name and full name of the message an extension is
  declared in; \<open>None\<close> (a \<open>nil\<close> parent) for an extension at the top level of a file.\<close>

record ExtensionDescriptor =
  pe_Name :: string
  pe_LongName :: string
  pe_FullName :: string
  pe_Comments :: string
  pe_Label :: FieldDescriptorProto_Label
  pe_IsProto3 :: bool
  pe_Proto3Optional :: bool
  pe_Type :: FieldDescriptorProto_Type
  pe_TypeName :: string
  pe_Package :: string
  pe_Number :: int
  pe_DefaultValue :: string
  pe_Extendee :: string
  pe_Parent :: "(string \<times> string \<times> string) option"

text \<open>A message descriptor; \<open>d_OneofDecl\<close> are the names of its oneof declarations,
  \<open>d_Enums\<close> and \<open>d_Messages\<close> the enums and messages nested directly in it.\<close>

datatype Descriptor = Descriptor
  (d_Name: string) (d_LongName: string) (d_FullName: string) (d_Comments: string)
  (d_Deprecated: bool) (d_OptionExtensions: "iface gomap")
  (d_Extensions: "ExtensionDescriptor list") (d_Fields: "FieldDescriptor list")
  (d_OneofDecl: "string list") (d_Enums: "EnumDescriptor list")
  (d_Messages: "Descriptor list")

record MethodDescriptor =
  md_Name :: string
  md_Comments :: string
  md_InputType :: string
  md_OutputType :: string
  md_Package :: string
  md_ClientStreaming :: bool
  md_ServerStreaming :: bool
  md_Deprecated :: bool
  md_IdempotencyLevel :: "MethodOptions_IdempotencyLevel option"
  md_OptionExtensions :: "iface gomap"

record ServiceDescriptor =
  sd_Name :: string
  sd_LongName :: string
  sd_FullName :: string
  sd_Comments :: string
  sd_Deprecated :: bool
  sd_OptionExtensions :: "iface gomap"
  sd_Methods :: "MethodDescriptor list"

record FileDescriptor =
  fd_Name :: string
  fd_SyntaxComments :: string
  fd_Package :: string
  fd_Deprecated :: bool
  fd_OptionExtensions :: "iface gomap"
  fd_Enums :: "EnumDescriptor list"
  fd_Extensions :: "ExtensionDescriptor list"
  fd_Messages :: "Descriptor list"
  fd_Services :: "ServiceDescriptor list"

section \<open>The documentation model\<close>

record FileExtension =
  FExt_Name :: string
  FExt_LongName :: string
  FExt_FullName :: string
  FExt_Description :: string
  FExt_Label :: string
  FExt_Type :: string
  FExt_LongType :: string
  FExt_FullType :: string
  FExt_Number :: int
  FExt_DefaultValue :: string
  FExt_ContainingType :: string
  FExt_ContainingLongType :: string
  FExt_ContainingFullType :: string

record MessageExtension =
  MExt_FileExtension :: FileExtension
  MExt_ScopeType :: string
  MExt_ScopeLongType :: string
  MExt_ScopeFullType :: string

record MessageField =
  MField_Name :: string
  MField_Description :: string
  MField_Label :: string
  MField_Type :: string
  MField_LongType :: string
  MField_FullType :: string
  MField_IsMap :: bool
  MField_IsOneof :: bool
  MField_OneofDecl :: string
  MField_DefaultValue :: string
  MField_Required :: bool
  MField_Options :: "iface gomap option"

record Message =
  Msg_Name :: string
  Msg_LongName :: string
  Msg_FullName :: string
  Msg_Description :: string
  Msg_HasExtensions :: bool
  Msg_HasFields :: bool
  Msg_HasOneofs :: bool
  Msg_Extensions :: "MessageExtension list"
  Msg_Fields :: "MessageField list"
  Msg_Exclude :: bool
  Msg_Options :: "iface gomap option"

record EnumValue =
  EValue_Name :: string
  EValue_Number :: string
  EValue_Description :: string
  EValue_Options :: "iface gomap option"

record Enum =
  Enum_Name :: string
  Enum_LongName :: string
  Enum_FullName :: string
  Enum_Description :: string
  Enum_Values :: "EnumValue list"
  Enum_Exclude :: bool
  Enum_Options :: "iface gomap option"

record ServiceMethod =
  Method_Name :: string
  Method_Description :: string
  Method_RequestType :: string
  Method_RequestLongType :: string
  Method_RequestFullType :: string
  Method_RequestStreaming :: bool
  Method_ResponseType :: string
  Method_ResponseLongType :: string
  Method_ResponseFullType :: string
  Method_ResponseStreaming :: bool
  Method_Title :: string
  Method_Action :: string
  Method_Version :: string
  Method_Exclude :: bool
  Method_Options :: "iface gomap option"

record Service =
  Svc_Name :: string
  Svc_LongName :: string
  Svc_FullName :: string
  Svc_Description :: string
  Svc_Methods :: "ServiceMethod list"
  Svc_Title :: string
  Svc_Exclude :: bool
  Svc_Options :: "iface gomap option"

record File =
  File_Name :: string
  File_Description :: string
  File_Package :: string
  File_HasEnums :: bool
  File_HasExtensions :: bool
  File_HasMessages :: bool
  File_HasServices :: bool
  File_Enums :: "Enum list"
  File_Extensions :: "FileExtension list"
  File_Messages :: "Message list"
  File_Services :: "Service list"
  File_Options :: "iface gomap option"

record ScalarValue =
  Scalar_ProtoType :: string
  Scalar_Notes :: string
  Scalar_CppType :: string
  Scalar_CSharp :: string
  Scalar_GoType :: string
  Scalar_JavaType :: string
  Scalar_PhpType :: string
  Scalar_PythonType :: string
  Scalar_RubyType :: string

text \<open>\<open>Scalars\<close> is a slice of pointers: \<open>None\<close> is the \<open>nil\<close> slice.\<close>

record Template =
  Files :: "File list"
  Scalars :: "ScalarValue option list option"

section \<open>The collaborators outside the repository\<close>

text \<open>
  A Go \<open>error\<close> is the text it prints.  A panic of the Go runtime ends the
  transformation; the two that \<open>template.go\<close> can raise are values of \<open>panic\<close>.
\<close>

type_synonym goerror = string

datatype panic = IndexOutOfRange | NilPointerDereference

text \<open>
  What the source calls and does not define, as parameters of the model:
  \<^item> \<open>sortSort\<close> is \<open>sort.Sort\<close> on a collection whose \<open>Less\<close> compares the long names.  The
    algorithm sees the collection through \<open>Len\<close>, \<open>Less\<close> and \<open>Swap\<close> only, so what it does
    is a function of the list of long names: it returns, for every position of the result,
    the index of the element that ends there.
  \<^item> \<open>jsonIndent\<close> is \<open>json.Indent\<close> with the prefix \<open>""\<close> and the indent of two spaces.
  \<^item> \<open>Transform\<close> is \<open>extensions.Transform\<close>.
  \<^item> \<open>fetchResource\<close> reads an embedded resource, \<open>jsonUnmarshal\<close> is \<open>json.Unmarshal\<close>
    into a slice of scalar values.
\<close>

record externals =
  sortSort :: "string list \<Rightarrow> nat list"
  jsonIndent :: "string \<Rightarrow> goerror + string"
  Transform :: "iface gomap \<Rightarrow> iface gomap"
  fetchResource :: "string \<Rightarrow> goerror + string"
  jsonUnmarshal :: "string \<Rightarrow> goerror + ScalarValue option list option"

text \<open>
  The documented contract of \<open>sort.Sort\<close>: the result is a rearrangement of the collection
  in ascending order of \<open>Less\<close>; "the sort is not guaranteed to be stable".
\<close>

definition sortContract :: "(string list \<Rightarrow> nat list) \<Rightarrow> bool" where
  "sortContract srt =
     (\<forall>ks. mset (srt ks) = mset [0..<length ks] \<and> sorted (map (\<lambda>i. ks ! i) (srt ks)))"

definition Sort :: "externals \<Rightarrow> ('a \<Rightarrow> string) \<Rightarrow> 'a list \<Rightarrow> 'a list" where
  "Sort ext LongName xs = map (\<lambda>i. xs ! i) (sortSort ext (map LongName xs))"

text \<open>\<open>fmt.Sprint\<close> of an integer: its decimal digits.\<close>

definition digitChar :: "nat \<Rightarrow> char" where
  "digitChar n = ''0123456789'' ! n"

fun natDigits :: "nat \<Rightarrow> string" where
  "natDigits n = (if n < 10 then [digitChar n] else natDigits (n div 10) @ [digitChar (n mod 10)])"

declare natDigits.simps [simp del]

definition Sprint :: "int \<Rightarrow> string" where
  "Sprint i = (if i < 0 then ''-'' @ natDigits (nat (- i)) else natDigits (nat i))"

text \<open>The loop of a Go function over a slice, when the body can panic: the first panic
  ends it.\<close>

fun mapE :: "('a \<Rightarrow> 'e + 'b) \<Rightarrow> 'a list \<Rightarrow> 'e + 'b list" where
  "mapE f [] = Inr []"
| "mapE f (x # xs) =
     (case f x of
        Inl e \<Rightarrow> Inl e
      | Inr y \<Rightarrow> (case mapE f xs of Inl e \<Rightarrow> Inl e | Inr ys \<Rightarrow> Inr (y # ys)))"

section \<open>Descriptions\<close>

definition IndentJson :: "externals \<Rightarrow> string \<Rightarrow> string" where
  "IndentJson ext inp = (case jsonIndent ext inp of Inl err \<Rightarrow> inp | Inr out \<Rightarrow> out)"

text \<open>
  The loop of \<open>IndentJsonInComment\<close>, with the variables \<open>res\<close> and \<open>comment\<close> as
  arguments: it runs while the opening tag is found at an index greater than 0.
\<close>

function indentLoop ::
  "externals \<Rightarrow> string \<Rightarrow> string \<Rightarrow> string \<Rightarrow> string \<Rightarrow> string \<Rightarrow> string" where
  "indentLoop ext originComment beginTag endTag res comment =
     (if 0 < Index comment beginTag
      then (if Index (drop (nat (Index comment beginTag) + length beginTag) comment) endTag = - 1
            then originComment
            else indentLoop ext originComment beginTag endTag
                   (res @ take (nat (Index comment beginTag)) comment @ beginTag @ [CHR 0x0A] @
                    IndentJson ext
                      (take (nat (Index (drop (nat (Index comment beginTag) + length beginTag) comment) endTag))
                         (drop (nat (Index comment beginTag) + length beginTag) comment)) @
                    endTag)
                   (drop (nat (Index (drop (nat (Index comment beginTag) + length beginTag) comment) endTag) +
                          length endTag)
                      (drop (nat (Index comment beginTag) + length beginTag) comment)))
      else if res = [] then comment else res @ comment)"
  by pat_completeness auto
termination
proof (relation "measure (\<lambda>(ext, originComment, beginTag, endTag, res, comment). length comment)")
  show "wf (measure (\<lambda>(ext, originComment, beginTag, endTag, res, comment). length comment))"
    by simp
next
  fix ext :: externals and originComment beginTag endTag res comment :: string
  assume "0 < Index comment beginTag"
  then have "comment \<noteq> []"
    by (cases comment) (auto split: if_splits)
  moreover from \<open>0 < Index comment beginTag\<close> have "0 < nat (Index comment beginTag)"
    by simp
  ultimately show
    "((ext, originComment, beginTag, endTag,
       res @ take (nat (Index comment beginTag)) comment @ beginTag @ [CHR 0x0A] @
       IndentJson ext
         (take (nat (Index (drop (nat (Index comment beginTag) + length beginTag) comment) endTag))
            (drop (nat (Index comment beginTag) + length beginTag) comment)) @
       endTag,
       drop (nat (Index (drop (nat (Index comment beginTag) + length beginTag) comment) endTag) +
             length endTag)
         (drop (nat (Index comment beginTag) + length beginTag) comment)),
      ext, originComment, beginTag, endTag, res, comment)
     \<in> measure (\<lambda>(ext, originComment, beginTag, endTag, res, comment). length comment)"
    by (cases comment) auto
qed

declare indentLoop.simps [simp del]

definition IndentJsonInComment :: "externals \<Rightarrow> string \<Rightarrow> string \<Rightarrow> string \<Rightarrow> string" where
  "IndentJsonInComment ext comment beginTag endTag =
     indentLoop ext comment beginTag endTag [] comment"

definition description :: "externals \<Rightarrow> string \<Rightarrow> string" where
  "description ext comment =
     IndentJsonInComment ext (TrimLeft comment [CHR ''*'', CHR ''/'', CHR 0x0A, CHR '' ''])
       ''```json'' ''```''"

section \<open>Directives\<close>

text \<open>The regular expressions are a tag followed by \<open>.*\<close>; the constants hold the tag.\<close>

definition actionRegex :: string where "actionRegex = ''@action''"
definition versionRegex :: string where "versionRegex = ''@version''"
definition titleRegex :: string where "titleRegex = ''@title''"

record Directive =
  Descrition :: string
  action :: string
  version :: string
  title :: string

text \<open>A method of \<open>*Directive\<close> returns its result and the directive as it has left it.\<close>

definition Exclude :: "Directive \<Rightarrow> bool \<times> Directive" where
  "Exclude d =
     (if Contains (Descrition d) ''@exclude''
      then (True, d\<lparr>Descrition := stripAll (Descrition d) ''@exclude''\<rparr>)
      else (False, d))"

definition Title :: "Directive \<Rightarrow> string \<times> Directive" where
  "Title d =
     (if title d \<noteq> '''' then (title d, d)
      else (case FindAllString titleRegex (Descrition d) of
              [] \<Rightarrow> (TrimSpace '''', d\<lparr>title := TrimSpace ''''\<rparr>)
            | t # _ \<Rightarrow>
                (TrimSpace (stripAll t ''@title''),
                 d\<lparr>Descrition := stripAll (Descrition d) t,
                   title := TrimSpace (stripAll t ''@title'')\<rparr>)))"

definition Action :: "Directive \<Rightarrow> string \<times> Directive" where
  "Action d =
     (if action d \<noteq> '''' then (action d, d)
      else (case FindAllString actionRegex (Descrition d) of
              [] \<Rightarrow> (TrimSpace '''', d\<lparr>action := TrimSpace ''''\<rparr>)
            | a # _ \<Rightarrow>
                (TrimSpace (stripAll a ''@action''),
                 d\<lparr>Descrition := stripAll (Descrition d) a,
                   action := TrimSpace (stripAll a ''@action'')\<rparr>)))"

definition Version :: "Directive \<Rightarrow> string \<times> Directive" where
  "Version d =
     (if version d \<noteq> '''' then (version d, d)
      else (case FindAllString versionRegex (Descrition d) of
              [] \<Rightarrow> (TrimSpace '''', d\<lparr>version := TrimSpace ''''\<rparr>)
            | v # _ \<Rightarrow>
                (TrimSpace (stripAll v ''@version''),
                 d\<lparr>Descrition := stripAll (Descrition d) v,
                   version := TrimSpace (stripAll v ''@version'')\<rparr>)))"

text \<open>\<open>&Directive{Descrition: desc}\<close>\<close>

definition newDirective :: "string \<Rightarrow> Directive" where
  "newDirective desc = \<lparr>Descrition = desc, action = '''', version = '''', title = ''''\<rparr>"

section \<open>The entity parsers\<close>

text \<open>
  A slice is the list of its elements (a \<open>nil\<close> slice is the empty list); a loop that
  appends one record per element is \<open>map\<close>.  The fields of a composite literal are
  evaluated in the order in which they are written, the method calls on the directive
  first; \<open>Description\<close> reads the text that the calls have left.
\<close>

definition parseEnum :: "externals \<Rightarrow> EnumDescriptor \<Rightarrow> Enum" where
  "parseEnum ext pe =
     (let desc = description ext (ed_Comments pe);
          (exclude, directive) = Exclude (newDirective desc)
      in \<lparr>Enum_Name = ed_Name pe,
          Enum_LongName = ed_LongName pe,
          Enum_FullName = ed_FullName pe,
          Enum_Description = Descrition directive,
          Enum_Values =
            map (\<lambda>val.
                  \<lparr>EValue_Name = evd_Name val,
                   EValue_Number = Sprint (evd_Number val),
                   EValue_Description = description ext (evd_Comments val),
                   EValue_Options =
                     mergeOptions
                       [extractOptions
                          \<lparr>co_Deprecated = evd_Deprecated val, co_IdempotencyLevel = None\<rparr>,
                        Transform ext (evd_OptionExtensions val)]\<rparr>)
              (ed_Values pe),
          Enum_Exclude = exclude,
          Enum_Options =
            mergeOptions
              [extractOptions \<lparr>co_Deprecated = ed_Deprecated pe, co_IdempotencyLevel = None\<rparr>,
               Transform ext (ed_OptionExtensions pe)]\<rparr>)"

definition parseFileExtension :: "externals \<Rightarrow> ExtensionDescriptor \<Rightarrow> FileExtension" where
  "parseFileExtension ext pe =
     (let (t, lt, ft) =
            parseType
              \<lparr>tc_Type = pe_Type pe, tc_TypeName = pe_TypeName pe, tc_Package = pe_Package pe\<rparr>
      in \<lparr>FExt_Name = pe_Name pe,
          FExt_LongName = pe_LongName pe,
          FExt_FullName = pe_FullName pe,
          FExt_Description = description ext (pe_Comments pe),
          FExt_Label = labelName (pe_Label pe) (pe_IsProto3 pe) (pe_Proto3Optional pe),
          FExt_Type = t,
          FExt_LongType = lt,
          FExt_FullType = ft,
          FExt_Number = pe_Number pe,
          FExt_DefaultValue = pe_DefaultValue pe,
          FExt_ContainingType = baseName (pe_Extendee pe),
          FExt_ContainingLongType = TrimPrefix (pe_Extendee pe) (''.'' @ pe_Package pe @ ''.''),
          FExt_ContainingFullType = TrimPrefix (pe_Extendee pe) ''.''\<rparr>)"

text \<open>The getters of a \<open>nil\<close> parent dereference it.\<close>

definition parseMessageExtension :: "externals \<Rightarrow> ExtensionDescriptor \<Rightarrow> panic + MessageExtension" where
  "parseMessageExtension ext pe =
     (case pe_Parent pe of
        None \<Rightarrow> Inl NilPointerDereference
      | Some (name, longName, fullName) \<Rightarrow>
          Inr \<lparr>MExt_FileExtension = parseFileExtension ext pe,
               MExt_ScopeType = name,
               MExt_ScopeLongType = longName,
               MExt_ScopeFullType = fullName\<rparr>)"

text \<open>\<open>oneofDecls[pf.GetOneofIndex()]\<close> panics when the index is out of range.\<close>

definition parseMessageField ::
  "externals \<Rightarrow> FieldDescriptor \<Rightarrow> string list \<Rightarrow> panic + MessageField" where
  "parseMessageField ext pf oneofDecls =
     (let (t, lt, ft) =
            parseType
              \<lparr>tc_Type = pf_Type pf, tc_TypeName = pf_TypeName pf, tc_Package = pf_Package pf\<rparr>;
          desc = description ext (pf_Comments pf);
          required = Contains desc ''@required'';
          m = \<lparr>MField_Name = pf_Name pf,
               MField_Description = stripAll desc ''@required'',
               MField_Label = labelName (pf_Label pf) (pf_IsProto3 pf) (pf_Proto3Optional pf),
               MField_Type = t,
               MField_LongType = lt,
               MField_FullType = ft,
               MField_IsMap = False,
               MField_IsOneof = (pf_OneofIndex pf \<noteq> None),
               MField_OneofDecl = '''',
               MField_DefaultValue = pf_DefaultValue pf,
               MField_Required = required,
               MField_Options =
                 mergeOptions
                   [extractOptions
                      \<lparr>co_Deprecated = pf_Deprecated pf, co_IdempotencyLevel = None\<rparr>,
                    Transform ext (pf_OptionExtensions pf)]\<rparr>
      in (case (case pf_OneofIndex pf of
                  None \<Rightarrow> Inr m
                | Some i \<Rightarrow>
                    if 0 \<le> i \<and> i < int (length oneofDecls)
                    then Inr (m\<lparr>MField_OneofDecl := oneofDecls ! nat i\<rparr>)
                    else Inl IndexOutOfRange) of
            Inl e \<Rightarrow> Inl e
          | Inr m \<Rightarrow>
              if MField_Label m = ''repeated'' \<and>
                 Contains (MField_LongType m) ''.'' \<and>
                 HasSuffix (MField_Type m) ''Entry'' \<and>
                 HasSuffix (MField_LongType m) ''Entry'' \<and>
                 HasSuffix (MField_FullType m) ''Entry''
              then Inr (m\<lparr>MField_IsMap := True\<rparr>)
              else Inr m))"

definition parseMessage :: "externals \<Rightarrow> Descriptor \<Rightarrow> panic + Message" where
  "parseMessage ext pm =
     (let desc = description ext (d_Comments pm);
          (exclude, directive) = Exclude (newDirective desc);
          msg = \<lparr>Msg_Name = d_Name pm,
                 Msg_LongName = d_LongName pm,
                 Msg_FullName = d_FullName pm,
                 Msg_Description = Descrition directive,
                 Msg_HasExtensions = (0 < length (d_Extensions pm)),
                 Msg_HasFields = (0 < length (d_Fields pm)),
                 Msg_HasOneofs = (0 < length (d_OneofDecl pm)),
                 Msg_Extensions = [],
                 Msg_Fields = [],
                 Msg_Exclude = exclude,
                 Msg_Options =
                   mergeOptions
                     [extractOptions
                        \<lparr>co_Deprecated = d_Deprecated pm, co_IdempotencyLevel = None\<rparr>,
                      Transform ext (d_OptionExtensions pm)]\<rparr>
      in (case mapE (parseMessageExtension ext) (d_Extensions pm) of
            Inl e \<Rightarrow> Inl e
          | Inr exts \<Rightarrow>
              (case mapE (\<lambda>f. parseMessageField ext f (d_OneofDecl pm)) (d_Fields pm) of
                 Inl e \<Rightarrow> Inl e
               | Inr flds \<Rightarrow>
                   Inr (msg\<lparr>Msg_Extensions := Msg_Extensions msg @ exts,
                            Msg_Fields := Msg_Fields msg @ flds\<rparr>))))"

definition parseServiceMethod :: "externals \<Rightarrow> MethodDescriptor \<Rightarrow> ServiceMethod" where
  "parseServiceMethod ext pm =
     (let desc = description ext (md_Comments pm);
          (act, d1) = Action (newDirective desc);
          (ver, d2) = Version d1;
          (ttl, d3) = Title d2;
          (exclude, directive) = Exclude d3
      in \<lparr>Method_Name = md_Name pm,
          Method_Description = Descrition directive,
          Method_RequestType = baseName (md_InputType pm),
          Method_RequestLongType = TrimPrefix (md_InputType pm) (''.'' @ md_Package pm @ ''.''),
          Method_RequestFullType = TrimPrefix (md_InputType pm) ''.'',
          Method_RequestStreaming = md_ClientStreaming pm,
          Method_ResponseType = baseName (md_OutputType pm),
          Method_ResponseLongType = TrimPrefix (md_OutputType pm) (''.'' @ md_Package pm @ ''.''),
          Method_ResponseFullType = TrimPrefix (md_OutputType pm) ''.'',
          Method_ResponseStreaming = md_ServerStreaming pm,
          Method_Title = ttl,
          Method_Action = act,
          Method_Version = ver,
          Method_Exclude = exclude,
          Method_Options =
            mergeOptions
              [extractOptions
                 \<lparr>co_Deprecated = md_Deprecated pm,
                  co_IdempotencyLevel = md_IdempotencyLevel pm\<rparr>,
               Transform ext (md_OptionExtensions pm)]\<rparr>)"

definition parseService :: "externals \<Rightarrow> ServiceDescriptor \<Rightarrow> Service" where
  "parseService ext ps =
     (let desc = description ext (sd_Comments ps);
          (ttl, d1) = Title (newDirective desc);
          (exclude, directive) = Exclude d1
      in \<lparr>Svc_Name = sd_Name ps,
          Svc_LongName = sd_LongName ps,
          Svc_FullName = sd_FullName ps,
          Svc_Description = Descrition directive,
          Svc_Methods = map (parseServiceMethod ext) (sd_Methods ps),
          Svc_Title = ttl,
          Svc_Exclude = exclude,
          Svc_Options =
            mergeOptions
              [extractOptions \<lparr>co_Deprecated = sd_Deprecated ps, co_IdempotencyLevel = None\<rparr>,
               Transform ext (sd_OptionExtensions ps)]\<rparr>)"

section \<open>The tree walker and the file assembler\<close>

text \<open>
  The closure \<open>addFromMessage\<close> appends to the collections of the file it has captured;
  the file is passed and returned.  \<open>addFromMessages\<close> is a loop that calls it for every
  message of a slice (the loop over \<open>m.Messages\<close> in the closure and the one over
  \<open>f.Messages\<close> in \<open>NewTemplate\<close>).
\<close>

lemma size_d_Messages: "Suc (2 * size_list size (d_Messages m)) < 2 * size m"
proof -
  have "size_list size (d_Messages m) < size m"
    by (cases m) simp
  then show ?thesis
    by linarith
qed

function addFromMessage :: "externals \<Rightarrow> Descriptor \<Rightarrow> File \<Rightarrow> panic + File"
  and addFromMessages :: "externals \<Rightarrow> Descriptor list \<Rightarrow> File \<Rightarrow> panic + File" where
  "addFromMessage ext m file =
     (case parseMessage ext m of
        Inl e \<Rightarrow> Inl e
      | Inr msg \<Rightarrow>
          addFromMessages ext (d_Messages m)
            (file\<lparr>File_Messages := File_Messages file @ [msg],
                  File_Enums := File_Enums file @ map (parseEnum ext) (d_Enums m)\<rparr>))"
| "addFromMessages ext [] file = Inr file"
| "addFromMessages ext (n # ns) file =
     (case addFromMessage ext n file of
        Inl e \<Rightarrow> Inl e
      | Inr file' \<Rightarrow> addFromMessages ext ns file')"
  by pat_completeness auto
termination
  by (relation "measure (\<lambda>x. case x of
          Inl (ext, m, file) \<Rightarrow> 2 * size m
        | Inr (ext, ms, file) \<Rightarrow> 2 * size_list size ms + 1)")
    (auto simp add: size_d_Messages)

declare addFromMessage.simps [simp del]

text \<open>The body of the loop of \<open>NewTemplate\<close> up to the four calls of \<open>sort.Sort\<close>.\<close>

definition populateFile :: "externals \<Rightarrow> FileDescriptor \<Rightarrow> panic + File" where
  "populateFile ext f =
     (let file =
            \<lparr>File_Name = fd_Name f,
             File_Description = description ext (fd_SyntaxComments f),
             File_Package = fd_Package f,
             File_HasEnums = (0 < length (fd_Enums f)),
             File_HasExtensions = (0 < length (fd_Extensions f)),
             File_HasMessages = (0 < length (fd_Messages f)),
             File_HasServices = (0 < length (fd_Services f)),
             File_Enums = [],
             File_Extensions = [],
             File_Messages = [],
             File_Services = [],
             File_Options =
               mergeOptions
                 [extractOptions \<lparr>co_Deprecated = fd_Deprecated f, co_IdempotencyLevel = None\<rparr>,
                  Transform ext (fd_OptionExtensions f)]\<rparr>;
          file = file\<lparr>File_Enums := File_Enums file @ map (parseEnum ext) (fd_Enums f)\<rparr>;
          file = file\<lparr>File_Extensions :=
                        File_Extensions file @ map (parseFileExtension ext) (fd_Extensions f)\<rparr>
      in (case addFromMessages ext (fd_Messages f) file of
            Inl e \<Rightarrow> Inl e
          | Inr file \<Rightarrow>
              Inr (file\<lparr>File_Services :=
                          File_Services file @ map (parseService ext) (fd_Services f)\<rparr>)))"

definition sortFile :: "externals \<Rightarrow> File \<Rightarrow> File" where
  "sortFile ext file =
     file\<lparr>File_Enums := Sort ext Enum_LongName (File_Enums file),
          File_Extensions := Sort ext FExt_LongName (File_Extensions file),
          File_Messages := Sort ext Msg_LongName (File_Messages file),
          File_Services := Sort ext Svc_LongName (File_Services file)\<rparr>"

definition newFile :: "externals \<Rightarrow> FileDescriptor \<Rightarrow> panic + File" where
  "newFile ext f =
     (case populateFile ext f of Inl e \<Rightarrow> Inl e | Inr file \<Rightarrow> Inr (sortFile ext file))"

text \<open>\<open>makeScalars\<close> returns the table and the lines it has printed.\<close>

definition makeScalars :: "externals \<Rightarrow> ScalarValue option list option \<times> string list" where
  "makeScalars ext =
     (case fetchResource ext ''scalars.json'' of
        Inl err \<Rightarrow> (None, [err])
      | Inr data \<Rightarrow>
          (case jsonUnmarshal ext data of
             Inl err \<Rightarrow> (None, [err])
           | Inr scalars \<Rightarrow> (scalars, [])))"

text \<open>\<open>NewTemplate\<close> returns the template and the lines printed, or the panic that ended it.\<close>

definition NewTemplate :: "externals \<Rightarrow> FileDescriptor list \<Rightarrow> panic + Template \<times> string list" where
  "NewTemplate ext descs =
     (case mapE (newFile ext) descs of
        Inl e \<Rightarrow> Inl e
      | Inr files \<Rightarrow>
          (case makeScalars ext of
             (scalars, printed) \<Rightarrow> Inr (\<lparr>Files = files, Scalars = scalars\<rparr>, printed)))"

section \<open>Reference definitions and examples\<close>

text \<open>
  The option merger in the words of the specification: the value of a key is the one
  supplied by the earliest map that defines the key.
\<close>

fun earliest :: "'v gomap list \<Rightarrow> string \<Rightarrow> 'v option" where
  "earliest [] k = None"
| "earliest (m # ms) k = (case map_of m k of Some v \<Rightarrow> Some v | None \<Rightarrow> earliest ms k)"

text \<open>
  Collaborators for the examples: a sort that keeps equal names in their order,
  \<open>json.Indent\<close> on the texts that the examples hold between the fences (\<open>{}\<close> and
  \<open>[1,2]\<close> are JSON, no other of them is), no custom options, no scalar-type resource.
\<close>

definition exampleJsonIndent :: "string \<Rightarrow> goerror + string" where
  "exampleJsonIndent s =
     (if s = ''{}'' then Inr ''{}''
      else if s = ''[1,2]'' then Inr ''[\<newline>  1,\<newline>  2\<newline>]''
      else Inl ''invalid character'')"

definition testExternals :: externals where
  "testExternals =
     \<lparr>sortSort = (\<lambda>ks. sort_key (\<lambda>i. ks ! i) [0..<length ks]),
      jsonIndent = exampleJsonIndent,
      Transform = (\<lambda>m. m),
      fetchResource = (\<lambda>name. Inl ''resource not found''),
      jsonUnmarshal = (\<lambda>data. Inl ''unexpected end of JSON input'')\<rparr>"

text \<open>The field \<open>map<string, string> properties = 7\<close> of message \<open>Vehicle\<close> in the fixture
  \<open>Vehicle.proto\<close>, as the schema compiler describes it.\<close>

definition propertiesField :: FieldDescriptor where
  "propertiesField =
     \<lparr>pf_Name = ''properties'', pf_Comments = ''bag of properties related to the vehicle.'',
      pf_Label = LABEL_REPEATED, pf_IsProto3 = True, pf_Proto3Optional = False,
      pf_Type = TYPE_MESSAGE, pf_TypeName = ''.com.example.Vehicle.PropertiesEntry'',
      pf_Package = ''com.example'', pf_DefaultValue = '''', pf_Deprecated = False,
      pf_OptionExtensions = [], pf_OneofIndex = None\<rparr>"

text \<open>The method \<open>rpc GetVehicle(FindVehicleById) returns (Vehicle)\<close> of service
  \<open>VehicleService\<close> in the fixture \<open>Vehicle.proto\<close>, without its custom option.\<close>

definition getVehicleMethod :: MethodDescriptor where
  "getVehicleMethod =
     \<lparr>md_Name = ''GetVehicle'', md_Comments = ''Looks up a vehicle by id.'',
      md_InputType = ''.com.example.FindVehicleById'', md_OutputType = ''.com.example.Vehicle'',
      md_Package = ''com.example'', md_ClientStreaming = False, md_ServerStreaming = False,
      md_Deprecated = False, md_IdempotencyLevel = None, md_OptionExtensions = []\<rparr>"

text \<open>"After normalizing leading separators": the leading dots of a name are dropped.\<close>

definition normalizeSeparators :: "string \<Rightarrow> string" where
  "normalizeSeparators s = dropWhile (\<lambda>c. c = CHR ''.'') s"

text \<open>The comment of the round-trip example of the specification.\<close>

definition roundTripComment :: string where
  "roundTripComment = ''Does X.\<newline>@exclude\<newline>@title Foo''"

text \<open>A call of one of the four accessors of a directive, for its effect on the directive.\<close>

datatype accessor = AExclude | ATitle | AAction | AVersion

fun callAccessor :: "Directive \<Rightarrow> accessor \<Rightarrow> Directive" where
  "callAccessor d AExclude = snd (Exclude d)"
| "callAccessor d ATitle = snd (Title d)"
| "callAccessor d AAction = snd (Action d)"
| "callAccessor d AVersion = snd (Version d)"

text \<open>
  The description cleaner without the accumulator of the loop: the text that results
  from scanning \<open>comment\<close>, or \<open>None\<close> when the scan reaches an opening tag that no closing
  tag follows.  The scan goes on while the opening tag is found at an index greater
  than 0 of the text that remains.
\<close>

lemma scan_shorter:
  assumes "0 < Index comment beginTag"
  shows "length (drop n (drop (nat (Index comment beginTag) + length beginTag) comment))
           < length comment"
proof -
  from assms have "comment \<noteq> []"
    by (cases comment) (auto split: if_splits)
  moreover from assms have "0 < nat (Index comment beginTag)"
    by simp
  ultimately show ?thesis
    by (cases comment) auto
qed

function reindent :: "externals \<Rightarrow> string \<Rightarrow> string \<Rightarrow> string \<Rightarrow> string option" where
  "reindent ext beginTag endTag comment =
     (if 0 < Index comment beginTag
      then (if Index (drop (nat (Index comment beginTag) + length beginTag) comment) endTag = - 1
            then None
            else map_option
                   (\<lambda>r. take (nat (Index comment beginTag)) comment @ beginTag @ [CHR 0x0A] @
                        IndentJson ext
                          (take (nat (Index (drop (nat (Index comment beginTag) + length beginTag) comment) endTag))
                             (drop (nat (Index comment beginTag) + length beginTag) comment)) @
                        endTag @ r)
                   (reindent ext beginTag endTag
                      (drop (nat (Index (drop (nat (Index comment beginTag) + length beginTag) comment) endTag) +
                             length endTag)
                         (drop (nat (Index comment beginTag) + length beginTag) comment))))
      else Some comment)"
  by pat_completeness auto
termination
proof (relation "measure (\<lambda>(ext, beginTag, endTag, comment). length comment)", goal_cases)
  case 1
  show ?case by simp
next
  case (2 ext beginTag endTag comment)
  show ?case
    unfolding in_measure prod.case by (rule scan_shorter) (rule 2(1))
qed

declare reindent.simps [simp del]

text \<open>A file without entities, and one whose leading comment holds a fenced text that is
  not JSON.\<close>

definition emptyFile :: FileDescriptor where
  "emptyFile =
     \<lparr>fd_Name = ''Vehicle.proto'', fd_SyntaxComments = ''Messages describing vehicles.'',
      fd_Package = ''com.example'', fd_Deprecated = False, fd_OptionExtensions = [],
      fd_Enums = [], fd_Extensions = [], fd_Messages = [], fd_Services = []\<rparr>"

definition badJsonFile :: FileDescriptor where
  "badJsonFile = emptyFile\<lparr>fd_SyntaxComments := ''Example: ```json{bad```''\<rparr>"

text \<open>
  The messages of a tree in depth-first order, a parent before its children and the
  children in the order of their declaration; the enums declared directly in the
  messages of a list; the messages of a file in the order of their discovery.
\<close>

lemma size_in_d_Messages: "n \<in> set (d_Messages m) \<Longrightarrow> size n < size m"
proof -
  assume "n \<in> set (d_Messages m)"
  then have "size n \<le> size_list size (d_Messages m)"
    by (simp add: size_list_estimation')
  also have "\<dots> < size m"
    by (cases m) simp
  finally show ?thesis .
qed

function preorder :: "Descriptor \<Rightarrow> Descriptor list" where
  "preorder m = m # concat (map preorder (d_Messages m))"
  by pat_completeness auto
termination
  by (relation "measure size") (simp_all add: size_in_d_Messages)

declare preorder.simps [simp del]

definition nestedEnums :: "externals \<Rightarrow> Descriptor list \<Rightarrow> Enum list" where
  "nestedEnums ext ms = concat (map (\<lambda>m. map (parseEnum ext) (d_Enums m)) ms)"

definition allMessages :: "FileDescriptor \<Rightarrow> Descriptor list" where
  "allMessages f = concat (map preorder (fd_Messages f))"

text \<open>
  \<open>sort.Sort\<close> as the Go releases from 1.19 on implement it (\<open>pdqsort\<close> of package
  \<open>sort\<close>).  The data is the list \<open>p\<close> of the indices of the elements; \<open>ks\<close> are their
  long names, so that \<open>data.Less(i, j)\<close> is \<open>ks ! (p ! i) < ks ! (p ! j)\<close> and
  \<open>data.Swap(i, j)\<close> exchanges \<open>p ! i\<close> and \<open>p ! j\<close>.
\<close>

definition dataLess :: "string list \<Rightarrow> nat list \<Rightarrow> nat \<Rightarrow> nat \<Rightarrow> bool" where
  "dataLess ks p i j = (ks ! (p ! i) < ks ! (p ! j))"

definition swapAt :: "'a list \<Rightarrow> nat \<Rightarrow> nat \<Rightarrow> 'a list" where
  "swapAt xs i j = xs[i := xs ! j, j := xs ! i]"

text \<open>
  \<open>insertionSort(data, a, b)\<close> sorts \<open>data[a:b]\<close>:
  \<open>for i := a + 1; i < b; i++ { for j := i; j > a && data.Less(j, j-1); j-- { data.Swap(j, j-1) } }\<close>.
  The inner loop moves element \<open>i\<close> to the left past the elements that are greater than
  it (\<open>insertLeft\<close>).
\<close>

definition insertLeft :: "string list \<Rightarrow> nat list \<Rightarrow> nat \<Rightarrow> nat list" where
  "insertLeft ks p x =
     rev (dropWhile (\<lambda>y. ks ! x < ks ! y) (rev p)) @ x #
     rev (takeWhile (\<lambda>y. ks ! x < ks ! y) (rev p))"

definition insertionSort :: "string list \<Rightarrow> nat list \<Rightarrow> nat \<Rightarrow> nat \<Rightarrow> nat list" where
  "insertionSort ks p a b =
     take a p @ foldl (insertLeft ks) [] (take (b - a) (drop a p)) @ drop b p"

text \<open>
  \<open>order2\<close> and \<open>median\<close>: the position of the median of the elements at three positions,
  and the number of exchanges made to find it.
\<close>

definition order2 :: "string list \<Rightarrow> nat list \<Rightarrow> nat \<Rightarrow> nat \<Rightarrow> nat \<Rightarrow> nat \<times> nat \<times> nat" where
  "order2 ks p a b swaps = (if dataLess ks p b a then (b, a, swaps + 1) else (a, b, swaps))"

definition median :: "string list \<Rightarrow> nat list \<Rightarrow> nat \<Rightarrow> nat \<Rightarrow> nat \<Rightarrow> nat \<Rightarrow> nat \<times> nat" where
  "median ks p a b c swaps =
     (case order2 ks p a b swaps of
        (a1, b1, s1) \<Rightarrow>
          (case order2 ks p b1 c s1 of
             (b2, c2, s2) \<Rightarrow>
               (case order2 ks p a1 b2 s2 of (a3, b3, s3) \<Rightarrow> (b3, s3))))"

text \<open>
  \<open>choosePivot(data, a, b)\<close> for fewer than 50 elements (from 50 on the source takes the
  median of three medians): the pivot and the number of exchanges.  The hint of the
  source is \<open>increasingHint\<close> when the number is 0 and \<open>decreasingHint\<close> when it is 12,
  which three calls of \<open>order2\<close> do not reach.
\<close>

definition choosePivot :: "string list \<Rightarrow> nat list \<Rightarrow> nat \<Rightarrow> nat \<Rightarrow> nat \<times> nat" where
  "choosePivot ks p a b =
     (let l = b - a
      in if 8 \<le> l
         then median ks p (a + l div 4 * 1) (a + l div 4 * 2) (a + l div 4 * 3) 0
         else (a + l div 4 * 2, 0))"

text \<open>
  \<open>partialInsertionSort(data, a, b)\<close> for fewer than 50 elements: the loop
  \<open>for i < b && !data.Less(i, i-1) { i++ }\<close> from \<open>i = a + 1\<close>, then \<open>true\<close> if \<open>i == b\<close> and
  \<open>false\<close> otherwise (\<open>if b-a < shortestShifting { return false }\<close>); the data is not
  changed.
\<close>

definition partialInsertionSort :: "string list \<Rightarrow> nat list \<Rightarrow> nat \<Rightarrow> nat \<Rightarrow> bool" where
  "partialInsertionSort ks p a b = list_all (\<lambda>i. \<not> dataLess ks p i (i - 1)) [a + 1..<b]"

text \<open>
  \<open>partition(data, a, b, pivot)\<close>.  \<open>scanUp\<close> is the loop
  \<open>for i <= j && data.Less(i, a) { i++ }\<close> and \<open>scanDown\<close> the loop
  \<open>for i <= j && !data.Less(j, a) { j-- }\<close>; \<open>partitionLoop\<close> is the loop that follows the
  first exchange, and returns the data and \<open>j\<close>.
\<close>

definition scanUp :: "string list \<Rightarrow> nat list \<Rightarrow> nat \<Rightarrow> nat \<Rightarrow> nat \<Rightarrow> nat" where
  "scanUp ks p a i j =
     i + length (takeWhile (\<lambda>x. ks ! x < ks ! (p ! a)) (take (j + 1 - i) (drop i p)))"

definition scanDown :: "string list \<Rightarrow> nat list \<Rightarrow> nat \<Rightarrow> nat \<Rightarrow> nat \<Rightarrow> nat" where
  "scanDown ks p a i j =
     j - length (takeWhile (\<lambda>x. \<not> ks ! x < ks ! (p ! a)) (rev (take (j + 1 - i) (drop i p))))"

lemma scanUp_ge: "i \<le> scanUp ks p a i j"
  by (simp add: scanUp_def)

lemma scanDown_le: "scanDown ks p a i j \<le> j"
  by (simp add: scanDown_def)

function partitionLoop :: "string list \<Rightarrow> nat list \<Rightarrow> nat \<Rightarrow> nat \<Rightarrow> nat \<Rightarrow> nat list \<times> nat" where
  "partitionLoop ks p a i j =
     (if scanUp ks p a i j > scanDown ks p a (scanUp ks p a i j) j
      then (p, scanDown ks p a (scanUp ks p a i j) j)
      else partitionLoop ks
             (swapAt p (scanUp ks p a i j) (scanDown ks p a (scanUp ks p a i j) j)) a
             (scanUp ks p a i j + 1) (scanDown ks p a (scanUp ks p a i j) j - 1))"
  by pat_completeness auto
termination
proof (relation "measure (\<lambda>(ks, p, a, i, j). j + 1 - i)", goal_cases)
  case 1
  show ?case by simp
next
  case (2 ks p a i j)
  have "i \<le> scanUp ks p a i j"
    by (rule scanUp_ge)
  moreover have "scanDown ks p a (scanUp ks p a i j) j \<le> j"
    by (rule scanDown_le)
  ultimately show ?case
    using 2 by simp
qed

declare partitionLoop.simps [simp del]

definition partitionData ::
  "string list \<Rightarrow> nat list \<Rightarrow> nat \<Rightarrow> nat \<Rightarrow> nat \<Rightarrow> nat list \<times> nat \<times> bool" where
  "partitionData ks p a b pivot =
     (let p = swapAt p a pivot;
          i = scanUp ks p a (a + 1) (b - 1);
          j = scanDown ks p a i (b - 1)
      in if i > j then (swapAt p j a, j, True)
         else (case partitionLoop ks (swapAt p i j) a (i + 1) (j - 1) of
                 (p, j) \<Rightarrow> (swapAt p j a, j, False)))"

text \<open>
  \<open>pdqsort(data, 0, n, bits.Len(n))\<close> for a slice that has at most twelve elements, or
  that the first partition cuts into two parts of at most twelve elements each, as it
  does every slice of thirteen elements.  At most twelve elements are sorted by
  insertion.  Otherwise the pivot is chosen; when the hint is \<open>increasingHint\<close> and
  \<open>partialInsertionSort\<close> finds the slice sorted, it is returned as it is; else
  \<open>a = 0\<close>, so that \<open>partitionEqual\<close> is not called, the slice is partitioned at the pivot,
  and the part on each side of it, of at most twelve elements, is sorted by insertion
  (\<open>pdqsort\<close> is called for the shorter part and the loop goes on with the other, and both
  begin with \<open>if length <= maxInsertion { insertionSort(data, a, b); return }\<close>).  The
  limit \<open>bits.Len(n)\<close> is not 0 and the first partition is preceded by no call of
  \<open>breakPatterns\<close>.  A part of more than twelve elements, which the source would
  partition again, is sorted by insertion here as well.
\<close>

definition pdqsort :: "string list \<Rightarrow> nat list \<Rightarrow> nat list" where
  "pdqsort ks p =
     (let b = length p
      in if b \<le> 12 then insertionSort ks p 0 b
         else (case choosePivot ks p 0 b of
                 (pivot, swaps) \<Rightarrow>
                   if swaps = 0 \<and> partialInsertionSort ks p 0 b then p
                   else (case partitionData ks p 0 b pivot of
                           (p, mid, alreadyPartitioned) \<Rightarrow>
                             insertionSort ks (insertionSort ks p 0 mid) (mid + 1) b)))"

text \<open>The collaborators of the examples, with this sort.\<close>

definition pdqsortExternals :: externals where
  "pdqsortExternals = testExternals\<lparr>sortSort := (\<lambda>ks. pdqsort ks [0..<length ks])\<rparr>"

text \<open>Descriptors for the examples: an enum and a message of package \<open>com.example\<close> with
  a comment and nothing else but nested declarations.\<close>

definition simpleEnum :: "string \<Rightarrow> string \<Rightarrow> string \<Rightarrow> EnumDescriptor" where
  "simpleEnum name longName comment =
     \<lparr>ed_Name = name, ed_LongName = longName, ed_FullName = ''com.example.'' @ longName,
      ed_Comments = comment, ed_Deprecated = False, ed_OptionExtensions = [], ed_Values = []\<rparr>"

definition simpleMessage ::
  "string \<Rightarrow> string \<Rightarrow> EnumDescriptor list \<Rightarrow> Descriptor list \<Rightarrow> Descriptor" where
  "simpleMessage name longName enums msgs =
     Descriptor name longName (''com.example.'' @ longName) '''' False [] [] [] [] enums msgs"

text \<open>A file with messages nested three levels deep.\<close>

definition nestedFile :: FileDescriptor where
  "nestedFile =
     emptyFile
       \<lparr>fd_Enums := [simpleEnum ''Zone'' ''Zone'' ''''],
        fd_Messages :=
          [simpleMessage ''Outer'' ''Outer'' [simpleEnum ''Kind'' ''Outer.Kind'' '''']
             [simpleMessage ''Inner'' ''Outer.Inner'' [simpleEnum ''Mode'' ''Outer.Inner.Mode'' '''']
                [simpleMessage ''Deep'' ''Outer.Inner.Deep'' [] []],
              simpleMessage ''Side'' ''Outer.Side'' [] []],
           simpleMessage ''Base'' ''Base'' [] []]\<rparr>"

text \<open>A file with thirteen enums, the first two of which have the long name \<open>Zone\<close>.\<close>

definition tiedFile :: FileDescriptor where
  "tiedFile =
     emptyFile
       \<lparr>fd_Enums :=
          [simpleEnum ''Zone'' ''Zone'' ''first'', simpleEnum ''Zone'' ''Zone'' ''second'',
           simpleEnum ''Area'' ''Area'' '''', simpleEnum ''Base'' ''Base'' '''',
           simpleEnum ''Code'' ''Code'' '''', simpleEnum ''Date'' ''Date'' '''',
           simpleEnum ''Kind'' ''Kind'' '''', simpleEnum ''Lane'' ''Lane'' '''',
           simpleEnum ''Mode'' ''Mode'' '''', simpleEnum ''Name'' ''Name'' '''',
           simpleEnum ''Rate'' ''Rate'' '''', simpleEnum ''Size'' ''Size'' '''',
           simpleEnum ''Unit'' ''Unit'' '''']\<rparr>"

section \<open>Properties\<close>

subsection \<open>Label resolution\<close>

text \<open>
  C5.  \<open>labelName\<close> returns the empty label for a proto3 field that has no explicit
  optional marker and is not repeated, \<open>repeated\<close> for a repeated proto3 field, and under
  proto2 or for an explicit-optional proto3 field the label token in lower case without
  its prefix \<open>LABEL_\<close>: one of \<open>optional\<close>, \<open>required\<close>, \<open>repeated\<close>.
\<close>

theorem labelName_resolution:
  "(proto3 \<and> \<not> proto3Opt \<and> lbl \<noteq> LABEL_REPEATED \<longrightarrow> labelName lbl proto3 proto3Opt = '''') \<and>
   labelName LABEL_REPEATED True proto3Opt = ''repeated'' \<and>
   (\<not> proto3 \<or> proto3Opt \<longrightarrow>
      labelName lbl proto3 proto3Opt = ToLower (TrimPrefix (Label_String lbl) ''LABEL_'') \<and>
      labelName lbl proto3 proto3Opt =
        (case lbl of LABEL_OPTIONAL \<Rightarrow> ''optional'' | LABEL_REQUIRED \<Rightarrow> ''required''
         | LABEL_REPEATED \<Rightarrow> ''repeated''))"
  by (cases lbl)
    (auto simp add: labelName_def ToLower_def TrimPrefix_def HasPrefix_def toLowerChar_def)

theorem labelName_resolution_witness:
  "labelName LABEL_OPTIONAL True False = '''' \<and>
   labelName LABEL_REPEATED True False = ''repeated'' \<and>
   labelName LABEL_REQUIRED False False = ''required'' \<and>
   labelName LABEL_OPTIONAL True True = ''optional''"
  using labelName_resolution [of True False LABEL_OPTIONAL]
    labelName_resolution [of False False LABEL_REQUIRED]
    labelName_resolution [of True True LABEL_OPTIONAL]
  by (simp (no_asm_use)) blast

subsection \<open>Option merging\<close>

lemma map_of_mergeEntry:
  "map_of (mergeEntry out kv) k =
     (case map_of out k of Some v \<Rightarrow> Some v | None \<Rightarrow> if k = fst kv then Some (snd kv) else None)"
  by (cases kv) (auto simp add: mergeEntry_def map_add_def split: option.splits)

lemma map_of_foldl_mergeEntry:
  "map_of (foldl mergeEntry out m) k =
     (case map_of out k of Some v \<Rightarrow> Some v | None \<Rightarrow> map_of m k)"
proof (induction m arbitrary: out)
  case Nil
  then show ?case by (simp split: option.splits)
next
  case (Cons kv m)
  then show ?case
    by (cases kv) (auto simp add: map_of_mergeEntry split: option.splits)
qed

lemma map_of_foldl_maps:
  "map_of (foldl (\<lambda>out m. foldl mergeEntry out m) out opts) k =
     (case map_of out k of Some v \<Rightarrow> Some v | None \<Rightarrow> earliest opts k)"
proof (induction opts arbitrary: out)
  case Nil
  then show ?case by (simp split: option.splits)
next
  case (Cons m opts)
  then show ?case
    by (auto simp add: map_of_foldl_mergeEntry split: option.splits)
qed

lemma distinct_mergeEntry:
  "distinct (map fst out) \<Longrightarrow> distinct (map fst (mergeEntry out kv))"
  by (auto simp add: mergeEntry_def map_of_eq_None_iff)

lemma distinct_foldl_mergeEntry:
  "distinct (map fst out) \<Longrightarrow> distinct (map fst (foldl mergeEntry out m))"
  by (induction m arbitrary: out) (simp_all add: distinct_mergeEntry)

lemma distinct_foldl_maps:
  "distinct (map fst out) \<Longrightarrow>
   distinct (map fst (foldl (\<lambda>out m. foldl mergeEntry out m) out opts))"
  by (induction opts arbitrary: out) (simp_all add: distinct_foldl_mergeEntry)

lemma mergeEntry_not_Nil: "mergeEntry out kv \<noteq> []"
  by (cases out) (auto simp add: mergeEntry_def)

lemma foldl_mergeEntry_Nil: "foldl mergeEntry out m = [] \<longleftrightarrow> out = [] \<and> m = []"
proof (induction m arbitrary: out)
  case Nil
  then show ?case by simp
next
  case (Cons kv m)
  then show ?case by (simp add: mergeEntry_not_Nil)
qed

lemma foldl_maps_Nil:
  "foldl (\<lambda>out m. foldl mergeEntry out m) out opts = [] \<longleftrightarrow> out = [] \<and> (\<forall>m\<in>set opts. m = [])"
  by (induction opts arbitrary: out) (auto simp add: foldl_mergeEntry_Nil)

text \<open>
  C3.  For every sequence of option maps in priority order, \<open>mergeOptions\<close> maps each key
  to the value supplied by the earliest map that defines it; the result is \<open>nil\<close>
  (\<open>None\<close>), not an empty map, exactly when no map contributes a key, and a result that is
  a map is not empty and has every key once.  Merging \<open>{deprecated: true}\<close> with
  \<open>{deprecated: false, owner: "x"}\<close> yields \<open>{deprecated: true, owner: "x"}\<close>, in whichever
  order the second map is traversed.
\<close>

theorem mergeOptions_first_wins:
  "(mergeOptions opts = None \<longleftrightarrow> (\<forall>m\<in>set opts. m = [])) \<and>
   (\<forall>out. mergeOptions opts = Some out \<longrightarrow>
      out \<noteq> [] \<and> distinct (map fst out) \<and> (\<forall>k. map_of out k = earliest opts k)) \<and>
   mergeOptions
     [[(''deprecated'', BoolV True)],
      [(''deprecated'', BoolV False), (''owner'', StringV ''x'')]] =
     Some [(''deprecated'', BoolV True), (''owner'', StringV ''x'')] \<and>
   mergeOptions
     [[(''deprecated'', BoolV True)],
      [(''owner'', StringV ''x''), (''deprecated'', BoolV False)]] =
     Some [(''deprecated'', BoolV True), (''owner'', StringV ''x'')]"
proof (intro conjI allI impI)
  show "mergeOptions opts = None \<longleftrightarrow> (\<forall>m\<in>set opts. m = [])"
    by (simp add: mergeOptions_def Let_def foldl_maps_Nil)
next
  fix out
  assume "mergeOptions opts = Some out"
  then have out: "out = foldl (\<lambda>out m. foldl mergeEntry out m) [] opts" and ne: "out \<noteq> []"
    by (auto simp add: mergeOptions_def Let_def split: if_splits)
  show "out \<noteq> []" by (rule ne)
  show "distinct (map fst out)"
    unfolding out by (rule distinct_foldl_maps) simp
  fix k
  show "map_of out k = earliest opts k"
    unfolding out by (simp add: map_of_foldl_maps)
next
  show "mergeOptions
     [[(''deprecated'', BoolV True)],
      [(''deprecated'', BoolV False), (''owner'', StringV ''x'')]] =
     Some [(''deprecated'', BoolV True), (''owner'', StringV ''x'')]"
    by (simp add: mergeOptions_def mergeEntry_def)
next
  show "mergeOptions
     [[(''deprecated'', BoolV True)],
      [(''owner'', StringV ''x''), (''deprecated'', BoolV False)]] =
     Some [(''deprecated'', BoolV True), (''owner'', StringV ''x'')]"
    by (simp add: mergeOptions_def mergeEntry_def)
qed

theorem mergeOptions_first_wins_witness:
  "mergeOptions [[], [] :: iface gomap] = None \<and>
   (\<exists>out. mergeOptions [[(''a'', IntV 1)], [(''a'', IntV 2), (''b'', IntV 3)]] = Some out \<and>
      map_of out ''a'' = Some (IntV 1) \<and> map_of out ''b'' = Some (IntV 3))"
proof -
  have "mergeOptions [[(''a'', IntV 1)], [(''a'', IntV 2), (''b'', IntV 3)]]
          = Some [(''a'', IntV 1), (''b'', IntV 3)]"
    by (simp add: mergeOptions_def mergeEntry_def)
  with mergeOptions_first_wins [of "[[(''a'', IntV 1)], [(''a'', IntV 2), (''b'', IntV 3)]]"]
    mergeOptions_first_wins [of "[[], [] :: iface gomap]"]
  show ?thesis by simp
qed

subsection \<open>Map detection\<close>

text \<open>
  C4.  A field that \<open>parseMessageField\<close> builds has \<open>IsMap\<close> set if and only if its label
  is \<open>repeated\<close>, its long type name contains a dot, and its short, long and full type
  names all end with \<open>Entry\<close>.  The repeated field \<open>properties\<close> of the fixture, of type
  \<open>.com.example.Vehicle.PropertiesEntry\<close>, is a map, and so is one of a type \<open>.Entry\<close>; the
  same field with a type that does not end in \<open>Entry\<close> is not.
\<close>

theorem parseMessageField_IsMap:
  "(\<forall>m. parseMessageField ext pf oneofDecls = Inr m \<longrightarrow>
      MField_IsMap m =
        (MField_Label m = ''repeated'' \<and> Contains (MField_LongType m) ''.'' \<and>
         HasSuffix (MField_Type m) ''Entry'' \<and> HasSuffix (MField_LongType m) ''Entry'' \<and>
         HasSuffix (MField_FullType m) ''Entry'')) \<and>
   map_sum id MField_IsMap (parseMessageField ext propertiesField []) = Inr True \<and>
   map_sum id MField_IsMap
     (parseMessageField ext (propertiesField\<lparr>pf_TypeName := ''.com.example.Vehicle.Entry''\<rparr>) []) =
     Inr True \<and>
   map_sum id MField_IsMap
     (parseMessageField ext
        (propertiesField\<lparr>pf_TypeName := ''.com.example.Vehicle.Properties''\<rparr>) []) =
     Inr False"
proof (intro conjI allI impI)
  fix m
  assume "parseMessageField ext pf oneofDecls = Inr m"
  then show "MField_IsMap m =
        (MField_Label m = ''repeated'' \<and> Contains (MField_LongType m) ''.'' \<and>
         HasSuffix (MField_Type m) ''Entry'' \<and> HasSuffix (MField_LongType m) ''Entry'' \<and>
         HasSuffix (MField_FullType m) ''Entry'')"
    by (auto simp add: parseMessageField_def Let_def split: prod.splits option.splits if_splits)
qed (simp_all add: parseMessageField_def propertiesField_def parseType_def labelName_def
      ToLower_def toLowerChar_def TrimPrefix_def HasPrefix_def HasSuffix_def baseName_def
      Contains_def Let_def)

theorem parseMessageField_IsMap_witness:
  "\<exists>m. parseMessageField testExternals propertiesField [] = Inr m \<and> MField_IsMap m \<and>
     MField_Label m = ''repeated'' \<and> MField_Type m = ''PropertiesEntry'' \<and>
     MField_LongType m = ''Vehicle.PropertiesEntry'' \<and>
     MField_FullType m = ''com.example.Vehicle.PropertiesEntry''"
proof -
  have "\<exists>m. parseMessageField testExternals propertiesField [] = Inr m"
    by (auto simp add: parseMessageField_def propertiesField_def Let_def split: prod.splits)
  then obtain m where m: "parseMessageField testExternals propertiesField [] = Inr m" ..
  from m have names: "MField_Label m = ''repeated'' \<and> MField_Type m = ''PropertiesEntry'' \<and>
     MField_LongType m = ''Vehicle.PropertiesEntry'' \<and>
     MField_FullType m = ''com.example.Vehicle.PropertiesEntry''"
    by (auto simp add: parseMessageField_def propertiesField_def parseType_def labelName_def
      ToLower_def toLowerChar_def TrimPrefix_def HasPrefix_def HasSuffix_def baseName_def
      Contains_def Let_def)
  from names m parseMessageField_IsMap [of testExternals propertiesField "[]"]
  have "MField_IsMap m"
    by (simp add: HasSuffix_def Contains_def HasPrefix_def)
  with names m show ?thesis
    by blast
qed

subsection \<open>Long names and full names\<close>

lemma HasPrefix_append: "HasPrefix (p @ s) p"
  by (simp add: HasPrefix_def)

lemma TrimPrefix_append: "TrimPrefix (p @ s) p = s"
  by (simp add: TrimPrefix_def HasPrefix_def)

lemma parseType_qualified:
  "HasPrefix (tc_TypeName tc) ''.'' \<Longrightarrow>
     parseType tc =
       (baseName (TrimPrefix (tc_TypeName tc) ''.''),
        TrimPrefix (TrimPrefix (tc_TypeName tc) ''.'') (tc_Package tc @ ''.''),
        TrimPrefix (tc_TypeName tc) ''.'')"
  by (simp add: parseType_def)

lemma parseType_in_package:
  assumes "tc_TypeName tc = ''.'' @ tc_Package tc @ ''.'' @ rest"
  shows "snd (parseType tc) = (rest, tc_Package tc @ ''.'' @ rest)"
proof -
  have 1: "HasPrefix (tc_TypeName tc) ''.''"
    unfolding assms by (simp add: HasPrefix_def)
  have 2: "TrimPrefix (tc_TypeName tc) ''.'' = (tc_Package tc @ ''.'') @ rest"
    unfolding assms by (simp add: TrimPrefix_def HasPrefix_def)
  show ?thesis
    unfolding parseType_qualified [OF 1] 2 TrimPrefix_append by simp
qed

lemma parseType_other_package:
  assumes "HasPrefix (tc_TypeName tc) ''.''"
    and "\<not> HasPrefix (TrimPrefix (tc_TypeName tc) ''.'') (tc_Package tc @ ''.'')"
  shows "snd (parseType tc) = (drop 1 (tc_TypeName tc), drop 1 (tc_TypeName tc))"
  using assms by (simp add: parseType_def TrimPrefix_def)

lemma method_type_names:
  "Method_RequestLongType (parseServiceMethod ext pm) =
     TrimPrefix (md_InputType pm) (''.'' @ md_Package pm @ ''.'')"
  "Method_RequestFullType (parseServiceMethod ext pm) = TrimPrefix (md_InputType pm) ''.''"
  "Method_ResponseLongType (parseServiceMethod ext pm) =
     TrimPrefix (md_OutputType pm) (''.'' @ md_Package pm @ ''.'')"
  "Method_ResponseFullType (parseServiceMethod ext pm) = TrimPrefix (md_OutputType pm) ''.''"
  by (simp_all add: parseServiceMethod_def Let_def split: prod.splits)

lemma TrimPrefix_in_package:
  "TrimPrefix (''.'' @ p @ ''.'' @ rest) (''.'' @ p @ ''.'') = rest"
  "TrimPrefix (''.'' @ p @ ''.'' @ rest) ''.'' = p @ ''.'' @ rest"
  by (simp_all add: TrimPrefix_def HasPrefix_def)

lemma TrimPrefix_rejoin: "p \<noteq> [] \<Longrightarrow> (s = p @ TrimPrefix s p) = HasPrefix s p"
proof (cases "HasPrefix s p")
  case True
  then have "p @ drop (length p) s = s"
    unfolding HasPrefix_def by (metis append_take_drop_id)
  with True show ?thesis
    by (simp add: TrimPrefix_def)
next
  case False
  assume "p \<noteq> []"
  then have "length s \<noteq> length (p @ s)"
    by simp
  then have "s \<noteq> p @ s"
    by metis
  with False show ?thesis
    by (simp add: TrimPrefix_def)
qed

lemma TrimPrefix_same: "p \<noteq> [] \<Longrightarrow> (TrimPrefix s p = s) = (\<not> HasPrefix s p)"
proof (cases "HasPrefix s p")
  case True
  assume "p \<noteq> []"
  moreover from True have "length (take (length p) s) = length p"
    unfolding HasPrefix_def by simp
  then have "length p \<le> length s"
    by simp
  ultimately have "length (drop (length p) s) \<noteq> length s"
    by (cases p) simp_all
  then have "drop (length p) s \<noteq> s"
    by metis
  with True show ?thesis
    by (simp add: TrimPrefix_def)
next
  case False
  then show ?thesis
    by (simp add: TrimPrefix_def)
qed

lemma parseType_full_iff:
  assumes "HasPrefix (tc_TypeName tc) ''.''"
  shows "(fst (snd (parseType tc)) = snd (snd (parseType tc))) =
           (\<not> HasPrefix (snd (snd (parseType tc))) (tc_Package tc @ ''.''))"
    and "(snd (snd (parseType tc)) = tc_Package tc @ ''.'' @ fst (snd (parseType tc))) =
           HasPrefix (snd (snd (parseType tc))) (tc_Package tc @ ''.'')"
  using TrimPrefix_same [of "tc_Package tc @ ''.''" "TrimPrefix (tc_TypeName tc) ''.''"]
    TrimPrefix_rejoin [of "tc_Package tc @ ''.''" "TrimPrefix (tc_TypeName tc) ''.''"]
  by (simp_all add: parseType_qualified [OF assms])

lemma normalizeSeparators_dot: "normalizeSeparators (''.'' @ TrimPrefix s ''.'') = normalizeSeparators s"
  by (cases s) (auto simp add: normalizeSeparators_def TrimPrefix_def HasPrefix_def)

lemma parseType_empty_package:
  assumes "HasPrefix (tc_TypeName tc) ''.''" and "tc_Package tc = ''''"
  shows "normalizeSeparators (snd (snd (parseType tc))) =
         normalizeSeparators (tc_Package tc @ ''.'' @ fst (snd (parseType tc)))"
  by (simp add: parseType_qualified [OF assms(1)] assms(2) normalizeSeparators_dot [simplified])

lemma method_full_iff:
  "(Method_RequestFullType (parseServiceMethod ext pm) =
      md_Package pm @ ''.'' @ Method_RequestLongType (parseServiceMethod ext pm)) =
     HasPrefix (md_InputType pm) (''.'' @ md_Package pm @ ''.'')"
  "(Method_ResponseFullType (parseServiceMethod ext pm) =
      md_Package pm @ ''.'' @ Method_ResponseLongType (parseServiceMethod ext pm)) =
     HasPrefix (md_OutputType pm) (''.'' @ md_Package pm @ ''.'')"
proof -
  have *: "(TrimPrefix raw ''.'' = P @ ''.'' @ TrimPrefix raw (''.'' @ P @ ''.'')) =
      HasPrefix raw (''.'' @ P @ ''.'')" for raw P :: string
  proof (cases "HasPrefix raw (''.'' @ P @ ''.'')")
    case True
    then have "raw = (''.'' @ P @ ''.'') @ drop (length (''.'' @ P @ ''.'')) raw"
      unfolding HasPrefix_def by (metis append_take_drop_id)
    then obtain rest where "raw = ''.'' @ P @ ''.'' @ rest"
      by (metis append.assoc)
    then show ?thesis
      by (simp add: TrimPrefix_def HasPrefix_def)
  next
    case False
    have "length (TrimPrefix raw ''.'') \<le> length raw"
      by (simp add: TrimPrefix_def)
    then have "length (TrimPrefix raw ''.'') \<noteq> length (P @ ''.'' @ raw)"
      by simp
    then have "TrimPrefix raw ''.'' \<noteq> P @ ''.'' @ raw"
      by metis
    with False show ?thesis
      by (simp add: TrimPrefix_def)
  qed
  show "(Method_RequestFullType (parseServiceMethod ext pm) =
      md_Package pm @ ''.'' @ Method_RequestLongType (parseServiceMethod ext pm)) =
     HasPrefix (md_InputType pm) (''.'' @ md_Package pm @ ''.'')"
    unfolding method_type_names by (rule *)
  show "(Method_ResponseFullType (parseServiceMethod ext pm) =
      md_Package pm @ ''.'' @ Method_ResponseLongType (parseServiceMethod ext pm)) =
     HasPrefix (md_OutputType pm) (''.'' @ md_Package pm @ ''.'')"
    unfolding method_type_names by (rule *)
qed

lemma parseType_examples:
  "parseType \<lparr>tc_Type = TYPE_MESSAGE, tc_TypeName = ''.com.example.sub.Foo'',
              tc_Package = ''com.example''\<rparr> = (''Foo'', ''sub.Foo'', ''com.example.sub.Foo'')"
  "parseType \<lparr>tc_Type = TYPE_MESSAGE, tc_TypeName = ''.Foo.Bar'', tc_Package = ''''\<rparr> =
     (''Bar'', ''Foo.Bar'', ''Foo.Bar'')"
  by (simp_all add: parseType_def HasPrefix_def TrimPrefix_def baseName_def)

lemma parseMessageField_types:
  assumes "parseMessageField ext pf decls = Inr m"
  shows "(MField_Type m, MField_LongType m, MField_FullType m) =
     parseType \<lparr>tc_Type = pf_Type pf, tc_TypeName = pf_TypeName pf, tc_Package = pf_Package pf\<rparr>"
  using assms
  by (auto simp add: parseMessageField_def Let_def split: prod.splits option.splits if_splits)

lemma parseFileExtension_types:
  "(FExt_Type (parseFileExtension ext pe), FExt_LongType (parseFileExtension ext pe),
    FExt_FullType (parseFileExtension ext pe)) =
     parseType \<lparr>tc_Type = pe_Type pe, tc_TypeName = pe_TypeName pe, tc_Package = pe_Package pe\<rparr>"
  "FExt_ContainingLongType (parseFileExtension ext pe) =
     TrimPrefix (pe_Extendee pe) (''.'' @ pe_Package pe @ ''.'')"
  "FExt_ContainingFullType (parseFileExtension ext pe) = TrimPrefix (pe_Extendee pe) ''.''"
  by (simp_all add: parseFileExtension_def Let_def split: prod.splits)

text \<open>
  C6 (as stated).  The full name of a resolved type is not always the package, a dot and
  the long name: for the field type \<open>.google.protobuf.Timestamp\<close> in a file of package
  \<open>com.example\<close> the long name and the full name are both \<open>google.protobuf.Timestamp\<close>,
  and for a scalar type they are both the name of the scalar.
\<close>

theorem full_name_is_package_dot_long_name_counterexample:
  "parseType \<lparr>tc_Type = TYPE_MESSAGE, tc_TypeName = ''.google.protobuf.Timestamp'',
              tc_Package = ''com.example''\<rparr> =
     (''Timestamp'', ''google.protobuf.Timestamp'', ''google.protobuf.Timestamp'') \<and>
   normalizeSeparators ''google.protobuf.Timestamp'' \<noteq>
     normalizeSeparators (''com.example'' @ ''.'' @ ''google.protobuf.Timestamp'') \<and>
   parseType \<lparr>tc_Type = TYPE_STRING, tc_TypeName = '''', tc_Package = ''com.example''\<rparr> =
     (''string'', ''string'', ''string'') \<and>
   normalizeSeparators ''string'' \<noteq> normalizeSeparators (''com.example'' @ ''.'' @ ''string'')"
  by (simp add: parseType_def HasPrefix_def TrimPrefix_def baseName_def normalizeSeparators_def
      ToLower_def toLowerChar_def)

text \<open>
  C6 (amended).  The names are related as strings, whatever package the type belongs to.
  The short, long and full type names of a field and of an extension are those that
  \<open>parseType\<close> returns for its type, its raw type name and its package.
  For a field or extension whose raw type name begins with a dot, the full type name is
  the raw name without that dot, and the long type name is the full name without the
  leading string "package, dot" when the full name begins with that string, and the full
  name itself when it does not.  So the full name is the package, a dot and the long name
  exactly when the full name begins with the string "package, dot", and the long name is
  the full name exactly when it does not: the type \<open>.com.example.sub.Foo\<close> of a
  sub-package has the long name \<open>sub.Foo\<close> in a file of package \<open>com.example\<close>, and in
  a file with the empty package the type \<open>.Foo.Bar\<close> has the long and the full name
  \<open>Foo.Bar\<close>.  With the empty package the full name and "package, dot, long name" are
  equal once their leading dots are dropped.  A type whose raw name does not begin with a
  dot has the lower-case name of the scalar as its short, long and full name.  For the
  request and response types of a method and for the type that an extension extends, the
  full name is the raw name without one leading dot and the long name is the raw name
  without the leading string "dot, package, dot" when the raw name begins with that
  string; for the types of a method, the full name is the package, a dot and the long name
  exactly when the raw name begins with it.  The long and full names of the messages,
  enums, services and file extensions themselves are those of the descriptor.
\<close>

theorem type_names_resolution:
  "(HasPrefix (tc_TypeName tc) ''.'' \<longrightarrow>
      parseType tc =
        (baseName (TrimPrefix (tc_TypeName tc) ''.''),
         TrimPrefix (TrimPrefix (tc_TypeName tc) ''.'') (tc_Package tc @ ''.''),
         TrimPrefix (tc_TypeName tc) ''.'')) \<and>
   (tc_TypeName tc = ''.'' @ tc_Package tc @ ''.'' @ rest \<longrightarrow>
      snd (parseType tc) = (rest, tc_Package tc @ ''.'' @ rest)) \<and>
   (HasPrefix (tc_TypeName tc) ''.'' \<and>
    \<not> HasPrefix (TrimPrefix (tc_TypeName tc) ''.'') (tc_Package tc @ ''.'') \<longrightarrow>
      snd (parseType tc) = (drop 1 (tc_TypeName tc), drop 1 (tc_TypeName tc))) \<and>
   (HasPrefix (tc_TypeName tc) ''.'' \<longrightarrow>
      (case parseType tc of
         (short, long, full) \<Rightarrow>
           (full = tc_Package tc @ ''.'' @ long) = HasPrefix full (tc_Package tc @ ''.'') \<and>
           (long = full) = (\<not> HasPrefix full (tc_Package tc @ ''.'')))) \<and>
   (HasPrefix (tc_TypeName tc) ''.'' \<and> tc_Package tc = '''' \<longrightarrow>
      (case parseType tc of
         (short, long, full) \<Rightarrow>
           normalizeSeparators full = normalizeSeparators (tc_Package tc @ ''.'' @ long))) \<and>
   parseType \<lparr>tc_Type = TYPE_MESSAGE, tc_TypeName = ''.com.example.sub.Foo'',
              tc_Package = ''com.example''\<rparr> =
     (''Foo'', ''sub.Foo'', ''com.example.sub.Foo'') \<and>
   parseType \<lparr>tc_Type = TYPE_MESSAGE, tc_TypeName = ''.Foo.Bar'', tc_Package = ''''\<rparr> =
     (''Bar'', ''Foo.Bar'', ''Foo.Bar'') \<and>
   (\<not> HasPrefix (tc_TypeName tc) ''.'' \<longrightarrow>
      parseType tc =
        (ToLower (TrimPrefix (Type_String (tc_Type tc)) ''TYPE_''),
         ToLower (TrimPrefix (Type_String (tc_Type tc)) ''TYPE_''),
         ToLower (TrimPrefix (Type_String (tc_Type tc)) ''TYPE_''))) \<and>
   Method_RequestLongType (parseServiceMethod ext pm) =
     TrimPrefix (md_InputType pm) (''.'' @ md_Package pm @ ''.'') \<and>
   Method_RequestFullType (parseServiceMethod ext pm) = TrimPrefix (md_InputType pm) ''.'' \<and>
   Method_ResponseLongType (parseServiceMethod ext pm) =
     TrimPrefix (md_OutputType pm) (''.'' @ md_Package pm @ ''.'') \<and>
   Method_ResponseFullType (parseServiceMethod ext pm) = TrimPrefix (md_OutputType pm) ''.'' \<and>
   (md_InputType pm = ''.'' @ md_Package pm @ ''.'' @ req \<longrightarrow>
      Method_RequestLongType (parseServiceMethod ext pm) = req \<and>
      Method_RequestFullType (parseServiceMethod ext pm) = md_Package pm @ ''.'' @ req) \<and>
   (md_OutputType pm = ''.'' @ md_Package pm @ ''.'' @ resp \<longrightarrow>
      Method_ResponseLongType (parseServiceMethod ext pm) = resp \<and>
      Method_ResponseFullType (parseServiceMethod ext pm) = md_Package pm @ ''.'' @ resp) \<and>
   (Method_RequestFullType (parseServiceMethod ext pm) =
      md_Package pm @ ''.'' @ Method_RequestLongType (parseServiceMethod ext pm)) =
     HasPrefix (md_InputType pm) (''.'' @ md_Package pm @ ''.'') \<and>
   (Method_ResponseFullType (parseServiceMethod ext pm) =
      md_Package pm @ ''.'' @ Method_ResponseLongType (parseServiceMethod ext pm)) =
     HasPrefix (md_OutputType pm) (''.'' @ md_Package pm @ ''.'') \<and>
   (\<forall>m. parseMessage ext d = Inr m \<longrightarrow>
      Msg_LongName m = d_LongName d \<and> Msg_FullName m = d_FullName d) \<and>
   Enum_LongName (parseEnum ext ed) = ed_LongName ed \<and>
   Enum_FullName (parseEnum ext ed) = ed_FullName ed \<and>
   Svc_LongName (parseService ext sd) = sd_LongName sd \<and>
   Svc_FullName (parseService ext sd) = sd_FullName sd \<and>
   FExt_LongName (parseFileExtension ext pe) = pe_LongName pe \<and>
   FExt_FullName (parseFileExtension ext pe) = pe_FullName pe \<and>
   (\<forall>mf. parseMessageField ext pf decls = Inr mf \<longrightarrow>
      (MField_Type mf, MField_LongType mf, MField_FullType mf) =
        parseType \<lparr>tc_Type = pf_Type pf, tc_TypeName = pf_TypeName pf,
                   tc_Package = pf_Package pf\<rparr>) \<and>
   (FExt_Type (parseFileExtension ext pe), FExt_LongType (parseFileExtension ext pe),
    FExt_FullType (parseFileExtension ext pe)) =
     parseType \<lparr>tc_Type = pe_Type pe, tc_TypeName = pe_TypeName pe,
                tc_Package = pe_Package pe\<rparr> \<and>
   FExt_ContainingLongType (parseFileExtension ext pe) =
     TrimPrefix (pe_Extendee pe) (''.'' @ pe_Package pe @ ''.'') \<and>
   FExt_ContainingFullType (parseFileExtension ext pe) = TrimPrefix (pe_Extendee pe) ''.''"
proof (intro conjI allI impI)
  fix m
  assume "parseMessage ext d = Inr m"
  then show "Msg_LongName m = d_LongName d" "Msg_FullName m = d_FullName d"
    by (auto simp add: parseMessage_def Let_def split: prod.splits sum.splits)
next
  fix mf
  assume "parseMessageField ext pf decls = Inr mf"
  then show "(MField_Type mf, MField_LongType mf, MField_FullType mf) =
        parseType \<lparr>tc_Type = pf_Type pf, tc_TypeName = pf_TypeName pf,
                   tc_Package = pf_Package pf\<rparr>"
    by (rule parseMessageField_types)
next
  show "(FExt_Type (parseFileExtension ext pe), FExt_LongType (parseFileExtension ext pe),
    FExt_FullType (parseFileExtension ext pe)) =
     parseType \<lparr>tc_Type = pe_Type pe, tc_TypeName = pe_TypeName pe,
                tc_Package = pe_Package pe\<rparr>"
    by (rule parseFileExtension_types(1))
  show "FExt_ContainingLongType (parseFileExtension ext pe) =
     TrimPrefix (pe_Extendee pe) (''.'' @ pe_Package pe @ ''.'')"
    by (rule parseFileExtension_types(2))
  show "FExt_ContainingFullType (parseFileExtension ext pe) = TrimPrefix (pe_Extendee pe) ''.''"
    by (rule parseFileExtension_types(3))
next
  assume "md_InputType pm = ''.'' @ md_Package pm @ ''.'' @ req"
  then show "Method_RequestLongType (parseServiceMethod ext pm) = req"
    "Method_RequestFullType (parseServiceMethod ext pm) = md_Package pm @ ''.'' @ req"
    by (simp_all only: method_type_names TrimPrefix_in_package)
next
  assume "md_OutputType pm = ''.'' @ md_Package pm @ ''.'' @ resp"
  then show "Method_ResponseLongType (parseServiceMethod ext pm) = resp"
    "Method_ResponseFullType (parseServiceMethod ext pm) = md_Package pm @ ''.'' @ resp"
    by (simp_all only: method_type_names TrimPrefix_in_package)
next
  assume "tc_TypeName tc = ''.'' @ tc_Package tc @ ''.'' @ rest"
  then show "snd (parseType tc) = (rest, tc_Package tc @ ''.'' @ rest)"
    by (rule parseType_in_package)
next
  assume "HasPrefix (tc_TypeName tc) ''.'' \<and>
    \<not> HasPrefix (TrimPrefix (tc_TypeName tc) ''.'') (tc_Package tc @ ''.'')"
  then show "snd (parseType tc) = (drop 1 (tc_TypeName tc), drop 1 (tc_TypeName tc))"
    by (simp add: parseType_other_package)
next
  assume h: "HasPrefix (tc_TypeName tc) ''.''"
  show "case parseType tc of
         (short, long, full) \<Rightarrow>
           (full = tc_Package tc @ ''.'' @ long) = HasPrefix full (tc_Package tc @ ''.'') \<and>
           (long = full) = (\<not> HasPrefix full (tc_Package tc @ ''.''))"
    unfolding case_prod_beta by (rule conjI [OF parseType_full_iff(2) [OF h] parseType_full_iff(1) [OF h]])
next
  assume "HasPrefix (tc_TypeName tc) ''.'' \<and> tc_Package tc = ''''"
  then have "normalizeSeparators (snd (snd (parseType tc))) =
         normalizeSeparators (tc_Package tc @ ''.'' @ fst (snd (parseType tc)))"
    by (simp only: parseType_empty_package)
  then show "case parseType tc of
         (short, long, full) \<Rightarrow>
           normalizeSeparators full = normalizeSeparators (tc_Package tc @ ''.'' @ long)"
    unfolding case_prod_beta .
next
  show "parseType \<lparr>tc_Type = TYPE_MESSAGE, tc_TypeName = ''.com.example.sub.Foo'',
              tc_Package = ''com.example''\<rparr> =
     (''Foo'', ''sub.Foo'', ''com.example.sub.Foo'')"
    by (rule parseType_examples(1))
  show "parseType \<lparr>tc_Type = TYPE_MESSAGE, tc_TypeName = ''.Foo.Bar'', tc_Package = ''''\<rparr> =
     (''Bar'', ''Foo.Bar'', ''Foo.Bar'')"
    by (rule parseType_examples(2))
  show "(Method_RequestFullType (parseServiceMethod ext pm) =
      md_Package pm @ ''.'' @ Method_RequestLongType (parseServiceMethod ext pm)) =
     HasPrefix (md_InputType pm) (''.'' @ md_Package pm @ ''.'')"
    by (rule method_full_iff(1))
  show "(Method_ResponseFullType (parseServiceMethod ext pm) =
      md_Package pm @ ''.'' @ Method_ResponseLongType (parseServiceMethod ext pm)) =
     HasPrefix (md_OutputType pm) (''.'' @ md_Package pm @ ''.'')"
    by (rule method_full_iff(2))
qed (simp_all add: method_type_names parseType_def parseEnum_def parseService_def
      parseFileExtension_def Let_def split: prod.splits)

theorem type_names_resolution_witness:
  "parseType \<lparr>tc_Type = TYPE_MESSAGE, tc_TypeName = ''.com.example.Vehicle.Category'',
              tc_Package = ''com.example''\<rparr> =
     (''Category'', ''Vehicle.Category'', ''com.example.Vehicle.Category'') \<and>
   snd (parseType \<lparr>tc_Type = TYPE_MESSAGE, tc_TypeName = ''.google.protobuf.Timestamp'',
                   tc_Package = ''com.example''\<rparr>) =
     (''google.protobuf.Timestamp'', ''google.protobuf.Timestamp'') \<and>
   parseType \<lparr>tc_Type = TYPE_SINT32, tc_TypeName = '''', tc_Package = ''com.example''\<rparr> =
     (''sint32'', ''sint32'', ''sint32'') \<and>
   normalizeSeparators ''Foo.Bar'' = normalizeSeparators ('''' @ ''.'' @ ''Foo.Bar'') \<and>
   Method_RequestLongType (parseServiceMethod testExternals getVehicleMethod) = ''FindVehicleById'' \<and>
   Method_RequestFullType (parseServiceMethod testExternals getVehicleMethod) =
     ''com.example.FindVehicleById'' \<and>
   Method_ResponseLongType (parseServiceMethod testExternals getVehicleMethod) = ''Vehicle'' \<and>
   Method_ResponseFullType (parseServiceMethod testExternals getVehicleMethod) =
     ''com.example.Vehicle''"
proof (intro conjI)
  note T1 = type_names_resolution [where tc = "\<lparr>tc_Type = TYPE_MESSAGE,
      tc_TypeName = ''.com.example.Vehicle.Category'', tc_Package = ''com.example''\<rparr>"
      and rest = "''Vehicle.Category''"]
  from T1 [THEN conjunct1]
  show "parseType \<lparr>tc_Type = TYPE_MESSAGE, tc_TypeName = ''.com.example.Vehicle.Category'',
              tc_Package = ''com.example''\<rparr> =
     (''Category'', ''Vehicle.Category'', ''com.example.Vehicle.Category'')"
    by (simp add: HasPrefix_def TrimPrefix_def baseName_def)
next
  note T2 = type_names_resolution [where tc = "\<lparr>tc_Type = TYPE_MESSAGE,
      tc_TypeName = ''.google.protobuf.Timestamp'', tc_Package = ''com.example''\<rparr>"]
  from T2 [THEN conjunct2, THEN conjunct2, THEN conjunct1]
  show "snd (parseType \<lparr>tc_Type = TYPE_MESSAGE, tc_TypeName = ''.google.protobuf.Timestamp'',
                   tc_Package = ''com.example''\<rparr>) =
     (''google.protobuf.Timestamp'', ''google.protobuf.Timestamp'')"
    by (simp add: HasPrefix_def TrimPrefix_def)
next
  note T3 = type_names_resolution [where tc = "\<lparr>tc_Type = TYPE_SINT32, tc_TypeName = '''',
      tc_Package = ''com.example''\<rparr>"]
  from T3 [THEN conjunct2, THEN conjunct2, THEN conjunct2, THEN conjunct2, THEN conjunct2,
      THEN conjunct2, THEN conjunct2, THEN conjunct1]
  show "parseType \<lparr>tc_Type = TYPE_SINT32, tc_TypeName = '''', tc_Package = ''com.example''\<rparr> =
     (''sint32'', ''sint32'', ''sint32'')"
    by (simp add: HasPrefix_def TrimPrefix_def ToLower_def toLowerChar_def)
next
  note T4 = type_names_resolution [where tc = "\<lparr>tc_Type = TYPE_MESSAGE,
      tc_TypeName = ''.Foo.Bar'', tc_Package = ''''\<rparr>"]
  from T4 [THEN conjunct2, THEN conjunct2, THEN conjunct2, THEN conjunct2, THEN conjunct1]
    T4 [THEN conjunct2, THEN conjunct2, THEN conjunct2, THEN conjunct2, THEN conjunct2,
      THEN conjunct2, THEN conjunct1]
  show "normalizeSeparators ''Foo.Bar'' = normalizeSeparators ('''' @ ''.'' @ ''Foo.Bar'')"
    by (simp add: HasPrefix_def)
next
  note T5 = type_names_resolution [where ext = testExternals and pm = getVehicleMethod
      and req = "''FindVehicleById''" and resp = "''Vehicle''"]
  have i: "md_InputType getVehicleMethod = ''.'' @ md_Package getVehicleMethod @ ''.'' @ ''FindVehicleById''"
    and o: "md_OutputType getVehicleMethod = ''.'' @ md_Package getVehicleMethod @ ''.'' @ ''Vehicle''"
    by (simp_all add: getVehicleMethod_def)
  note rq = T5 [THEN conjunct2, THEN conjunct2, THEN conjunct2, THEN conjunct2, THEN conjunct2,
      THEN conjunct2, THEN conjunct2, THEN conjunct2, THEN conjunct2, THEN conjunct2,
      THEN conjunct2, THEN conjunct2, THEN conjunct1, THEN mp, OF i]
  note rs = T5 [THEN conjunct2, THEN conjunct2, THEN conjunct2, THEN conjunct2, THEN conjunct2,
      THEN conjunct2, THEN conjunct2, THEN conjunct2, THEN conjunct2, THEN conjunct2,
      THEN conjunct2, THEN conjunct2, THEN conjunct2, THEN conjunct1, THEN mp, OF o]
  from rq show "Method_RequestLongType (parseServiceMethod testExternals getVehicleMethod) =
      ''FindVehicleById''"
    by (rule conjunct1)
  from rq show "Method_RequestFullType (parseServiceMethod testExternals getVehicleMethod) =
     ''com.example.FindVehicleById''"
    by (simp add: getVehicleMethod_def)
  from rs show "Method_ResponseLongType (parseServiceMethod testExternals getVehicleMethod) = ''Vehicle''"
    by (rule conjunct1)
  from rs show "Method_ResponseFullType (parseServiceMethod testExternals getVehicleMethod) =
     ''com.example.Vehicle''"
    by (simp add: getVehicleMethod_def)
qed

subsection \<open>Directives\<close>

lemma description_no_fence:
  "Index (TrimLeft c [CHR ''*'', CHR ''/'', CHR 0x0A, CHR '' '']) ''```json'' \<le> 0 \<Longrightarrow>
   description ext c = TrimLeft c [CHR ''*'', CHR ''/'', CHR 0x0A, CHR '' '']"
  by (simp add: description_def IndentJsonInComment_def indentLoop.simps)

lemma description_roundTripComment: "description ext roundTripComment = roundTripComment"
  by (rule trans [OF description_no_fence])
     (simp_all add: roundTripComment_def TrimLeft_def HasPrefix_def)

lemmas directive_eval =
  Title_def Action_def Version_def Exclude_def newDirective_def roundTripComment_def
  titleRegex_def actionRegex_def versionRegex_def FindAllString_def lineMatch_def
  Contains_def HasPrefix_def HasSuffix_def TrimSpace_def spaceWidth_def spaceWidthRight_def
  asciiSpace_def unicodeSpace_def

text \<open>
  C8.  For the comment \<open>Does X.\<close>, \<open>@exclude\<close>, \<open>@title Foo\<close> (three lines) the service-method
  parser and the service parser both set \<open>Exclude\<close>, find the title \<open>Foo\<close>, and leave a
  description (\<open>Does X.\<close> and two newlines) that contains neither \<open>@exclude\<close> nor \<open>@title\<close>.
\<close>

theorem directive_round_trip:
  "Method_Exclude (parseServiceMethod ext (pm\<lparr>md_Comments := roundTripComment\<rparr>)) = True \<and>
   Method_Title (parseServiceMethod ext (pm\<lparr>md_Comments := roundTripComment\<rparr>)) = ''Foo'' \<and>
   Method_Description (parseServiceMethod ext (pm\<lparr>md_Comments := roundTripComment\<rparr>)) =
     ''Does X.\<newline>\<newline>'' \<and>
   Svc_Exclude (parseService ext (ps\<lparr>sd_Comments := roundTripComment\<rparr>)) = True \<and>
   Svc_Title (parseService ext (ps\<lparr>sd_Comments := roundTripComment\<rparr>)) = ''Foo'' \<and>
   Svc_Description (parseService ext (ps\<lparr>sd_Comments := roundTripComment\<rparr>)) =
     ''Does X.\<newline>\<newline>'' \<and>
   \<not> Contains (''Does X.\<newline>\<newline>'') ''@exclude'' \<and>
   \<not> Contains (''Does X.\<newline>\<newline>'') ''@title''"
proof -
  have a: "Action (newDirective roundTripComment) = ('''', newDirective roundTripComment)"
    by (simp add: directive_eval)
  have v: "Version (newDirective roundTripComment) = ('''', newDirective roundTripComment)"
    by (simp add: directive_eval)
  have t: "Title (newDirective roundTripComment) =
      (''Foo'', \<lparr>Descrition = ''Does X.\<newline>@exclude\<newline>'',
                action = '''', version = '''', title = ''Foo''\<rparr>)"
    by (simp add: directive_eval)
  have e: "Exclude \<lparr>Descrition = ''Does X.\<newline>@exclude\<newline>'',
                action = '''', version = '''', title = ''Foo''\<rparr> =
      (True, \<lparr>Descrition = ''Does X.\<newline>\<newline>'',
                action = '''', version = '''', title = ''Foo''\<rparr>)"
    by (simp add: directive_eval)
  show ?thesis
    by (simp add: parseServiceMethod_def parseService_def description_roundTripComment a v t e)
       (simp add: Contains_def HasPrefix_def)
qed

subsection \<open>Caching of directive values\<close>

text \<open>
  C2 (as stated).  A repeated call of an accessor does not always return the value of
  the first call, and it can change the description again: \<open>Exclude\<close> keeps no value,
  so on \<open>@exclude\<close> it answers true and then false; \<open>Title\<close> keeps a value only when
  it is not empty, so on the two lines \<open>@title\<close> and \<open>@tit@titlele Bar\<close> it answers
  the empty title, and then \<open>Bar\<close> from the text that its first call has left.
\<close>

theorem directive_cache_counterexample:
  "fst (Exclude (newDirective ''@exclude'')) = True \<and>
   fst (Exclude (snd (Exclude (newDirective ''@exclude'')))) = False \<and>
   fst (Title (newDirective ''@title\<newline>@tit@titlele Bar'')) = '''' \<and>
   Title (snd (Title (newDirective ''@title\<newline>@tit@titlele Bar''))) =
     (''Bar'', \<lparr>Descrition = ''\<newline>'', action = '''', version = '''', title = ''Bar''\<rparr>)"
  by (simp add: directive_eval)

lemma Title_stores: "title (snd (Title d)) = fst (Title d)"
  by (simp add: Title_def split: list.splits)

lemma Action_stores: "action (snd (Action d)) = fst (Action d)"
  by (simp add: Action_def split: list.splits)

lemma Version_stores: "version (snd (Version d)) = fst (Version d)"
  by (simp add: Version_def split: list.splits)

lemma Title_cached: "title d \<noteq> '''' \<Longrightarrow> Title d = (title d, d)"
  by (simp add: Title_def)

lemma Action_cached: "action d \<noteq> '''' \<Longrightarrow> Action d = (action d, d)"
  by (simp add: Action_def)

lemma Version_cached: "version d \<noteq> '''' \<Longrightarrow> Version d = (version d, d)"
  by (simp add: Version_def)

lemma callAccessor_title: "title d \<noteq> '''' \<Longrightarrow> title (callAccessor d a) = title d"
  by (cases a) (simp_all add: Title_def Action_def Version_def Exclude_def split: list.splits)

lemma callAccessor_action: "action d \<noteq> '''' \<Longrightarrow> action (callAccessor d a) = action d"
  by (cases a) (simp_all add: Title_def Action_def Version_def Exclude_def split: list.splits)

lemma callAccessor_version: "version d \<noteq> '''' \<Longrightarrow> version (callAccessor d a) = version d"
  by (cases a) (simp_all add: Title_def Action_def Version_def Exclude_def split: list.splits)

lemma foldl_callAccessor_title:
  "title d \<noteq> '''' \<Longrightarrow> title (foldl callAccessor d accs) = title d"
  by (induction accs arbitrary: d) (simp_all add: callAccessor_title)

lemma foldl_callAccessor_action:
  "action d \<noteq> '''' \<Longrightarrow> action (foldl callAccessor d accs) = action d"
  by (induction accs arbitrary: d) (simp_all add: callAccessor_action)

lemma foldl_callAccessor_version:
  "version d \<noteq> '''' \<Longrightarrow> version (foldl callAccessor d accs) = version d"
  by (induction accs arbitrary: d) (simp_all add: callAccessor_version)

text \<open>
  C2 (amended).  \<open>Title\<close>, \<open>Action\<close> and \<open>Version\<close> keep a value that is not empty:
  once one of them has returned a non-empty value, a call of it after any sequence of
  calls of the four accessors returns that value and leaves the directive, and so the
  description, as it is.  \<open>Exclude\<close> keeps nothing: every call looks for \<open>@exclude\<close> in
  the description as it is then, and removes every occurrence that it finds.
\<close>

theorem directive_nonempty_value_cached:
  "(fst (Title d) \<noteq> '''' \<longrightarrow>
      Title (foldl callAccessor (snd (Title d)) accs) =
        (fst (Title d), foldl callAccessor (snd (Title d)) accs)) \<and>
   (fst (Action d) \<noteq> '''' \<longrightarrow>
      Action (foldl callAccessor (snd (Action d)) accs) =
        (fst (Action d), foldl callAccessor (snd (Action d)) accs)) \<and>
   (fst (Version d) \<noteq> '''' \<longrightarrow>
      Version (foldl callAccessor (snd (Version d)) accs) =
        (fst (Version d), foldl callAccessor (snd (Version d)) accs)) \<and>
   Exclude d =
     (Contains (Descrition d) ''@exclude'',
      if Contains (Descrition d) ''@exclude''
      then d\<lparr>Descrition := stripAll (Descrition d) ''@exclude''\<rparr> else d)"
proof (intro conjI impI)
  assume "fst (Title d) \<noteq> ''''"
  then have "title (snd (Title d)) \<noteq> ''''"
    by (simp add: Title_stores)
  then have "title (foldl callAccessor (snd (Title d)) accs) = fst (Title d)"
    by (simp add: foldl_callAccessor_title Title_stores)
  with \<open>fst (Title d) \<noteq> ''''\<close>
  show "Title (foldl callAccessor (snd (Title d)) accs) =
        (fst (Title d), foldl callAccessor (snd (Title d)) accs)"
    using Title_cached [of "foldl callAccessor (snd (Title d)) accs"] by simp
next
  assume "fst (Action d) \<noteq> ''''"
  then have "action (snd (Action d)) \<noteq> ''''"
    by (simp add: Action_stores)
  then have "action (foldl callAccessor (snd (Action d)) accs) = fst (Action d)"
    by (simp add: foldl_callAccessor_action Action_stores)
  with \<open>fst (Action d) \<noteq> ''''\<close>
  show "Action (foldl callAccessor (snd (Action d)) accs) =
        (fst (Action d), foldl callAccessor (snd (Action d)) accs)"
    using Action_cached [of "foldl callAccessor (snd (Action d)) accs"] by simp
next
  assume "fst (Version d) \<noteq> ''''"
  then have "version (snd (Version d)) \<noteq> ''''"
    by (simp add: Version_stores)
  then have "version (foldl callAccessor (snd (Version d)) accs) = fst (Version d)"
    by (simp add: foldl_callAccessor_version Version_stores)
  with \<open>fst (Version d) \<noteq> ''''\<close>
  show "Version (foldl callAccessor (snd (Version d)) accs) =
        (fst (Version d), foldl callAccessor (snd (Version d)) accs)"
    using Version_cached [of "foldl callAccessor (snd (Version d)) accs"] by simp
next
  show "Exclude d =
     (Contains (Descrition d) ''@exclude'',
      if Contains (Descrition d) ''@exclude''
      then d\<lparr>Descrition := stripAll (Descrition d) ''@exclude''\<rparr> else d)"
    by (simp add: Exclude_def)
qed

theorem directive_nonempty_value_cached_witness:
  "fst (Title (newDirective roundTripComment)) = ''Foo'' \<and>
   Title (foldl callAccessor (snd (Title (newDirective roundTripComment)))
            [AExclude, AAction, ATitle, AVersion]) =
     (''Foo'', \<lparr>Descrition = ''Does X.\<newline>\<newline>'',
               action = '''', version = '''', title = ''Foo''\<rparr>)"
proof -
  have t: "Title (newDirective roundTripComment) =
      (''Foo'', \<lparr>Descrition = ''Does X.\<newline>@exclude\<newline>'',
                action = '''', version = '''', title = ''Foo''\<rparr>)"
    by (simp add: directive_eval)
  have r: "foldl callAccessor \<lparr>Descrition = ''Does X.\<newline>@exclude\<newline>'',
                action = '''', version = '''', title = ''Foo''\<rparr>
            [AExclude, AAction, ATitle, AVersion] =
     \<lparr>Descrition = ''Does X.\<newline>\<newline>'',
               action = '''', version = '''', title = ''Foo''\<rparr>"
    by (simp add: directive_eval)
  show ?thesis
    using directive_nonempty_value_cached
      [of "newDirective roundTripComment" "[AExclude, AAction, ATitle, AVersion]"]
    unfolding t fst_conv snd_conv r by simp
qed

subsection \<open>The description cleaner\<close>

lemma indentLoop_reindent:
  "indentLoop ext originComment beginTag endTag res comment =
     (case reindent ext beginTag endTag comment of
        None \<Rightarrow> originComment
      | Some r \<Rightarrow> res @ r)"
proof (induction ext originComment beginTag endTag res comment rule: indentLoop.induct)
  case (1 ext originComment beginTag endTag res comment)
  show ?case
  proof (cases "0 < Index comment beginTag")
    case False
    then show ?thesis
      by (simp add: indentLoop.simps [of ext originComment beginTag endTag res comment]
          reindent.simps [of ext beginTag endTag comment])
  next
    case True
    show ?thesis
    proof (cases "Index (drop (nat (Index comment beginTag) + length beginTag) comment) endTag = - 1")
      case True
      with \<open>0 < Index comment beginTag\<close> show ?thesis
        by (simp add: indentLoop.simps [of ext originComment beginTag endTag res comment]
            reindent.simps [of ext beginTag endTag comment])
    next
      case False
      with \<open>0 < Index comment beginTag\<close> "1.IH" show ?thesis
        by (simp add: indentLoop.simps [of ext originComment beginTag endTag res comment]
            reindent.simps [of ext beginTag endTag comment] split: option.splits)
    qed
  qed
qed

lemma description_reindent:
  "description ext c =
     (case reindent ext ''```json'' ''```'' (TrimLeft c [CHR ''*'', CHR ''/'', CHR 0x0A, CHR '' '']) of
        None \<Rightarrow> TrimLeft c [CHR ''*'', CHR ''/'', CHR 0x0A, CHR '' '']
      | Some r \<Rightarrow> r)"
  by (simp add: description_def IndentJsonInComment_def indentLoop_reindent split: option.splits)

lemmas scan_eval =
  description_reindent TrimLeft_def HasPrefix_def IndentJson_def testExternals_def
  exampleJsonIndent_def reindent.simps

text \<open>
  C10 (as stated).  An opening fence that no closing fence follows does not always make
  the cleaner return the comment unchanged, and not every fenced text is re-indented:
  in \<open>a```json{}``````json{\<close> the second opening fence (at index 13) has no
  closing fence, and the result has a newline more than the comment; in
  \<open>a```json{}``````json[1,2]```\<close> the second block stays as it is.  In both the scan has
  stopped at the second opening fence, which is at index 0 of the text that remains.
\<close>

theorem description_fences_counterexample:
  "TrimLeft ''a```json{}``````json{'' [CHR ''*'', CHR ''/'', CHR 0x0A, CHR '' ''] =
     ''a```json{}``````json{'' \<and>
   HasPrefix (drop 13 ''a```json{}``````json{'') ''```json'' \<and>
   \<not> Contains (drop 20 ''a```json{}``````json{'') ''```'' \<and>
   description testExternals ''a```json{}``````json{'' = ''a```json\<newline>{}``````json{'' \<and>
   description testExternals ''a```json{}``````json{'' \<noteq> ''a```json{}``````json{'' \<and>
   jsonIndent testExternals ''[1,2]'' = Inr ''[\<newline>  1,\<newline>  2\<newline>]'' \<and>
   description testExternals ''a```json{}``````json[1,2]```'' =
     ''a```json\<newline>{}``````json[1,2]```''"
  by (simp add: scan_eval Contains_def)

text \<open>
  C10 (amended).  The cleaner strips the leading \<open>*\<close>, \<open>/\<close>, newline and space characters
  and then scans the text.  While the next opening fence is found at an index greater
  than 0 of the text that remains, the text before the fence and the fence are kept,
  and the text up to the next closing fence is replaced by a newline and its
  re-indentation, or by a newline and the text itself when it is not valid JSON; the
  scan goes on after the closing fence.  The scan stops where the remaining text has no
  opening fence or begins with one (index 0), and that text is appended as it is; so a
  text that begins with the opening fence is returned unchanged.  When an opening fence
  that the scan reaches has no closing fence, the stripped comment is returned as it
  was before the scan.
\<close>

theorem description_scan:
  "description ext c =
     (case reindent ext ''```json'' ''```'' (TrimLeft c [CHR ''*'', CHR ''/'', CHR 0x0A, CHR '' '']) of
        None \<Rightarrow> TrimLeft c [CHR ''*'', CHR ''/'', CHR 0x0A, CHR '' '']
      | Some r \<Rightarrow> r) \<and>
   (Index v b \<le> 0 \<longrightarrow> reindent ext b e v = Some v) \<and>
   (0 < Index v b \<and> Index (drop (nat (Index v b) + length b) v) e = - 1 \<longrightarrow>
      reindent ext b e v = None) \<and>
   (0 < Index v b \<and> Index (drop (nat (Index v b) + length b) v) e \<noteq> - 1 \<longrightarrow>
      reindent ext b e v =
        map_option
          (\<lambda>r. take (nat (Index v b)) v @ b @ [CHR 0x0A] @
               IndentJson ext
                 (take (nat (Index (drop (nat (Index v b) + length b) v) e))
                    (drop (nat (Index v b) + length b) v)) @
               e @ r)
          (reindent ext b e
             (drop (nat (Index (drop (nat (Index v b) + length b) v) e) + length e)
                (drop (nat (Index v b) + length b) v)))) \<and>
   (\<forall>err. jsonIndent ext s = Inl err \<longrightarrow> IndentJson ext s = s) \<and>
   (\<forall>out. jsonIndent ext s = Inr out \<longrightarrow> IndentJson ext s = out) \<and>
   (Index (TrimLeft c [CHR ''*'', CHR ''/'', CHR 0x0A, CHR '' '']) ''```json'' \<le> 0 \<longrightarrow>
      description ext c = TrimLeft c [CHR ''*'', CHR ''/'', CHR 0x0A, CHR '' '']) \<and>
   description testExternals ''/** x```json[1,2]``` y'' =
     ''x```json\<newline>[\<newline>  1,\<newline>  2\<newline>]``` y'' \<and>
   description testExternals ''a```json{bad```'' = ''a```json\<newline>{bad```'' \<and>
   description testExternals ''```json[1,2]```'' = ''```json[1,2]```'' \<and>
   description testExternals ''a```json[1,2]``` b```json{'' = ''a```json[1,2]``` b```json{''"
proof (intro conjI allI impI)
  show "description ext c =
     (case reindent ext ''```json'' ''```'' (TrimLeft c [CHR ''*'', CHR ''/'', CHR 0x0A, CHR '' '']) of
        None \<Rightarrow> TrimLeft c [CHR ''*'', CHR ''/'', CHR 0x0A, CHR '' '']
      | Some r \<Rightarrow> r)"
    by (rule description_reindent)
next
  assume "Index v b \<le> 0"
  then show "reindent ext b e v = Some v"
    by (simp add: reindent.simps [of ext b e v])
next
  assume "0 < Index v b \<and> Index (drop (nat (Index v b) + length b) v) e = - 1"
  then show "reindent ext b e v = None"
    by (simp add: reindent.simps [of ext b e v])
next
  assume "0 < Index v b \<and> Index (drop (nat (Index v b) + length b) v) e \<noteq> - 1"
  then show "reindent ext b e v =
        map_option
          (\<lambda>r. take (nat (Index v b)) v @ b @ [CHR 0x0A] @
               IndentJson ext
                 (take (nat (Index (drop (nat (Index v b) + length b) v) e))
                    (drop (nat (Index v b) + length b) v)) @
               e @ r)
          (reindent ext b e
             (drop (nat (Index (drop (nat (Index v b) + length b) v) e) + length e)
                (drop (nat (Index v b) + length b) v)))"
    by (simp add: reindent.simps [of ext b e v])
next
  fix err
  assume "jsonIndent ext s = Inl err"
  then show "IndentJson ext s = s"
    by (simp add: IndentJson_def)
next
  fix out
  assume "jsonIndent ext s = Inr out"
  then show "IndentJson ext s = out"
    by (simp add: IndentJson_def)
next
  assume "Index (TrimLeft c [CHR ''*'', CHR ''/'', CHR 0x0A, CHR '' '']) ''```json'' \<le> 0"
  then show "description ext c = TrimLeft c [CHR ''*'', CHR ''/'', CHR 0x0A, CHR '' '']"
    by (simp add: description_reindent
        reindent.simps [of ext _ _ "TrimLeft c [CHR ''*'', CHR ''/'', CHR 0x0A, CHR '' '']"])
qed (simp_all add: scan_eval)

theorem description_scan_witness:
  "description testExternals ''```json[1,2]```'' = ''```json[1,2]```'' \<and>
   reindent testExternals ''```json'' ''```'' ''a```json{'' = None \<and>
   reindent testExternals ''```json'' ''```'' ''a```json{}```'' = Some ''a```json\<newline>{}```'' \<and>
   IndentJson testExternals ''{bad'' = ''{bad'' \<and>
   IndentJson testExternals ''[1,2]'' = ''[\<newline>  1,\<newline>  2\<newline>]''"
  using
    description_scan [where ext = testExternals and c = "''```json[1,2]```''"
      and v = "''a```json{''" and b = "''```json''" and e = "''```''" and s = "''{bad''"]
    description_scan [where ext = testExternals and c = "''```json[1,2]```''"
      and v = "''a```json{}```''" and b = "''```json''" and e = "''```''" and s = "''[1,2]''"]
    description_scan [where ext = testExternals and c = "''```json[1,2]```''"
      and v = "[]" and b = "''```json''" and e = "''```''" and s = "''[1,2]''"]
  by (simp add: TrimLeft_def HasPrefix_def testExternals_def exampleJsonIndent_def IndentJson_def)

subsection \<open>The tree walker\<close>

lemma mapE_append:
  "mapE f (xs @ ys) =
     (case mapE f xs of
        Inl e \<Rightarrow> Inl e
      | Inr a \<Rightarrow> (case mapE f ys of Inl e \<Rightarrow> Inl e | Inr b \<Rightarrow> Inr (a @ b)))"
  by (induction xs) (auto split: sum.splits)

lemma mapE_Inr_iff: "mapE f xs = Inr ys \<longleftrightarrow> map f xs = map Inr ys"
proof (induction xs arbitrary: ys)
  case Nil
  then show ?case by auto
next
  case (Cons x xs)
  show ?case
  proof (cases ys)
    case Nil
    then show ?thesis by (auto split: sum.splits)
  next
    case (Cons y ys')
    with Cons.IH [of ys'] show ?thesis
      by (auto split: sum.splits)
  qed
qed

lemma mapE_cong: "(\<And>x. x \<in> set xs \<Longrightarrow> f x = g x) \<Longrightarrow> mapE f xs = mapE g xs"
  by (induction xs) (auto split: sum.splits)

lemma nestedEnums_append: "nestedEnums ext (xs @ ys) = nestedEnums ext xs @ nestedEnums ext ys"
  by (simp add: nestedEnums_def)

lemma nestedEnums_Cons:
  "nestedEnums ext (m # ms) = map (parseEnum ext) (d_Enums m) @ nestedEnums ext ms"
  by (simp add: nestedEnums_def)

lemma addFrom_preorder:
  "addFromMessage ext m fl =
     (case mapE (parseMessage ext) (preorder m) of
        Inl e \<Rightarrow> Inl e
      | Inr msgs \<Rightarrow>
          Inr (fl\<lparr>File_Messages := File_Messages fl @ msgs,
                    File_Enums := File_Enums fl @ nestedEnums ext (preorder m)\<rparr>))"
  "addFromMessages ext ms fl =
     (case mapE (parseMessage ext) (concat (map preorder ms)) of
        Inl e \<Rightarrow> Inl e
      | Inr msgs \<Rightarrow>
          Inr (fl\<lparr>File_Messages := File_Messages fl @ msgs,
                    File_Enums := File_Enums fl @ nestedEnums ext (concat (map preorder ms))\<rparr>))"
proof (induction ext m fl and ext ms fl rule: addFromMessage_addFromMessages.induct)
  case (1 ext m fl)
  show ?case
  proof (cases "parseMessage ext m")
    case (Inl e)
    then show ?thesis
      by (simp add: addFromMessage.simps [of ext m fl] preorder.simps [of m])
  next
    case (Inr msg)
    with "1.IH" [of msg] show ?thesis
      by (simp add: addFromMessage.simps [of ext m fl] preorder.simps [of m]
          nestedEnums_Cons split: sum.splits)
  qed
next
  case (2 ext fl)
  show ?case by (simp add: nestedEnums_def)
next
  case (3 ext n ns fl)
  show ?case
  proof (cases "addFromMessage ext n fl")
    case (Inl e)
    with "3.IH"(1) show ?thesis
      by (simp add: mapE_append split: sum.splits)
  next
    case (Inr fl')
    with "3.IH"(1) "3.IH"(2) [of fl'] show ?thesis
      by (auto simp add: mapE_append nestedEnums_append split: sum.splits)
  qed
qed

lemma populateFile_eq:
  "populateFile ext f =
     (case mapE (parseMessage ext) (allMessages f) of
        Inl e \<Rightarrow> Inl e
      | Inr msgs \<Rightarrow>
          Inr \<lparr>File_Name = fd_Name f,
               File_Description = description ext (fd_SyntaxComments f),
               File_Package = fd_Package f,
               File_HasEnums = (0 < length (fd_Enums f)),
               File_HasExtensions = (0 < length (fd_Extensions f)),
               File_HasMessages = (0 < length (fd_Messages f)),
               File_HasServices = (0 < length (fd_Services f)),
               File_Enums = map (parseEnum ext) (fd_Enums f) @ nestedEnums ext (allMessages f),
               File_Extensions = map (parseFileExtension ext) (fd_Extensions f),
               File_Messages = msgs,
               File_Services = map (parseService ext) (fd_Services f),
               File_Options =
                 mergeOptions
                   [extractOptions \<lparr>co_Deprecated = fd_Deprecated f, co_IdempotencyLevel = None\<rparr>,
                    Transform ext (fd_OptionExtensions f)]\<rparr>)"
  by (simp add: populateFile_def Let_def addFrom_preorder allMessages_def split: sum.splits)

lemma reindent_cong:
  "jsonIndent ext' = jsonIndent ext \<Longrightarrow> reindent ext' b e c = reindent ext b e c"
proof (induction ext b e c rule: reindent.induct)
  case (1 ext b e c)
  then have ij: "IndentJson ext' = IndentJson ext"
    by (simp add: IndentJson_def fun_eq_iff)
  show ?case
  proof (cases "0 < Index c b \<and> Index (drop (nat (Index c b) + length b) c) e \<noteq> - 1")
    case True
    with 1 have "reindent ext' b e
        (drop (nat (Index (drop (nat (Index c b) + length b) c) e) + length e)
           (drop (nat (Index c b) + length b) c)) =
      reindent ext b e
        (drop (nat (Index (drop (nat (Index c b) + length b) c) e) + length e)
           (drop (nat (Index c b) + length b) c))"
      by simp
    with True ij show ?thesis
      by (simp add: reindent.simps [of ext b e c] reindent.simps [of ext' b e c])
  next
    case False
    then show ?thesis
      by (auto simp add: reindent.simps [of ext b e c] reindent.simps [of ext' b e c])
  qed
qed

lemma description_cong:
  assumes "jsonIndent ext' = jsonIndent ext"
  shows "description ext' = description ext"
  by (rule ext) (simp add: description_reindent reindent_cong [OF assms])

lemma parsers_cong:
  assumes "jsonIndent ext' = jsonIndent ext" and "Transform ext' = Transform ext"
  shows "parseEnum ext' = parseEnum ext"
    and "parseFileExtension ext' = parseFileExtension ext"
    and "parseMessageExtension ext' = parseMessageExtension ext"
    and "parseMessageField ext' = parseMessageField ext"
    and "parseMessage ext' = parseMessage ext"
    and "parseServiceMethod ext' = parseServiceMethod ext"
    and "parseService ext' = parseService ext"
proof -
  note d = description_cong [OF assms(1)]
  show 1: "parseEnum ext' = parseEnum ext"
    by (rule ext) (simp add: parseEnum_def d assms(2) Let_def cong: option.case_cong sum.case_cong prod.case_cong)
  show 2: "parseFileExtension ext' = parseFileExtension ext"
    by (rule ext) (simp add: parseFileExtension_def d Let_def cong: option.case_cong sum.case_cong prod.case_cong)
  show 3: "parseMessageExtension ext' = parseMessageExtension ext"
    by (rule ext) (simp add: parseMessageExtension_def 2 Let_def cong: option.case_cong sum.case_cong prod.case_cong)
  show 4: "parseMessageField ext' = parseMessageField ext"
    by (rule ext)+ (simp add: parseMessageField_def d assms(2) Let_def cong: option.case_cong sum.case_cong prod.case_cong)
  show "parseMessage ext' = parseMessage ext"
    by (rule ext) (simp add: parseMessage_def d assms(2) 3 4 Let_def cong: option.case_cong sum.case_cong prod.case_cong)
  show 6: "parseServiceMethod ext' = parseServiceMethod ext"
    by (rule ext) (simp add: parseServiceMethod_def d assms(2) Let_def cong: option.case_cong sum.case_cong prod.case_cong)
  show "parseService ext' = parseService ext"
    by (rule ext) (simp add: parseService_def d assms(2) 6 Let_def cong: option.case_cong sum.case_cong prod.case_cong)
qed

lemma newFile_cong:
  assumes "sortSort ext' = sortSort ext" and "jsonIndent ext' = jsonIndent ext"
    and "Transform ext' = Transform ext"
  shows "newFile ext' = newFile ext"
proof (rule ext)
  fix f
  note p = parsers_cong [OF assms(2) assms(3)]
  have pop: "populateFile ext' f = populateFile ext f"
    by (simp add: populateFile_eq nestedEnums_def p description_cong [OF assms(2)] assms(3)
        cong: sum.case_cong)
  have srt: "sortFile ext' fl = sortFile ext fl" for fl
    by (simp add: sortFile_def Sort_def assms(1))
  show "newFile ext' f = newFile ext f"
    by (simp add: newFile_def pop srt cong: sum.case_cong)
qed

subsection \<open>The scalar-type table\<close>

lemma NewTemplate_Inl: "NewTemplate ext descs = Inl p \<longleftrightarrow> mapE (newFile ext) descs = Inl p"
  by (cases "mapE (newFile ext) descs"; cases "makeScalars ext") (simp_all add: NewTemplate_def)

lemma NewTemplate_Inr:
  "mapE (newFile ext) descs = Inr files \<Longrightarrow>
   NewTemplate ext descs =
     Inr (\<lparr>Files = files, Scalars = fst (makeScalars ext)\<rparr>, snd (makeScalars ext))"
  by (cases "makeScalars ext") (simp add: NewTemplate_def)

lemma makeScalars_cases:
  "fetchResource ext ''scalars.json'' = Inl err \<Longrightarrow> makeScalars ext = (None, [err])"
  "fetchResource ext ''scalars.json'' = Inr data \<Longrightarrow> jsonUnmarshal ext data = Inl err \<Longrightarrow>
     makeScalars ext = (None, [err])"
  "fetchResource ext ''scalars.json'' = Inr data \<Longrightarrow> jsonUnmarshal ext data = Inr scalars \<Longrightarrow>
     makeScalars ext = (scalars, [])"
  by (simp_all add: makeScalars_def)

lemma newFile_emptyFile:
  "newFile ext (emptyFile\<lparr>fd_SyntaxComments := c\<rparr>) =
     Inr \<lparr>File_Name = ''Vehicle.proto'', File_Description = description ext c,
          File_Package = ''com.example'', File_HasEnums = False, File_HasExtensions = False,
          File_HasMessages = False, File_HasServices = False,
          File_Enums = Sort ext Enum_LongName [], File_Extensions = Sort ext FExt_LongName [],
          File_Messages = Sort ext Msg_LongName [], File_Services = Sort ext Svc_LongName [],
          File_Options = mergeOptions [[], Transform ext []]\<rparr>"
  by (simp add: newFile_def populateFile_eq allMessages_def sortFile_def emptyFile_def
      nestedEnums_def extractOptions_def)

lemma description_bad_json:
  "description (testExternals\<lparr>fetchResource := f, jsonUnmarshal := u\<rparr>) ''Example: ```json{bad```'' =
     ''Example: ```json\<newline>{bad```''"
  by (simp add: scan_eval)

text \<open>
  C9 (as stated).  The failure to load the scalar-type table is not the only error that
  the transformation tolerates: \<open>json.Indent\<close> rejects the text \<open>{bad\<close> between the fences
  of the leading comment of a file, \<open>IndentJson\<close> ignores the error, and the template is
  built (here with a table that loads, so that nothing is printed).
\<close>

theorem only_soft_failure_counterexample:
  "jsonIndent testExternals ''{bad'' = Inl ''invalid character'' \<and>
   map_sum id (\<lambda>(t, printed). (map File_Description (Files t), Scalars t, printed))
     (NewTemplate
        (testExternals\<lparr>fetchResource := \<lambda>name. Inr ''[]'', jsonUnmarshal := \<lambda>data. Inr (Some [])\<rparr>)
        [badJsonFile]) =
     Inr ([''Example: ```json\<newline>{bad```''], Some [], [])"
proof -
  have "jsonIndent testExternals ''{bad'' = Inl ''invalid character''"
    by (simp add: testExternals_def exampleJsonIndent_def)
  moreover have "map_sum id (\<lambda>(t, printed). (map File_Description (Files t), Scalars t, printed))
     (NewTemplate
        (testExternals\<lparr>fetchResource := \<lambda>name. Inr ''[]'', jsonUnmarshal := \<lambda>data. Inr (Some [])\<rparr>)
        [badJsonFile]) =
     Inr ([''Example: ```json\<newline>{bad```''], Some [], [])"
    unfolding badJsonFile_def NewTemplate_def mapE.simps newFile_emptyFile
    by (simp add: makeScalars_def description_bad_json)
  ultimately show ?thesis
    by (rule conjI)
qed

text \<open>
  C9 (amended).  When the scalar-type resource cannot be read or its contents cannot be
  decoded, the construction of the template does not fail: the error is printed, the
  table is \<open>nil\<close>, and the files are those that a readable table gives (they depend on
  the sort, on \<open>json.Indent\<close> and on the transformation of custom options only).  The
  construction fails exactly when the assembly of a file panics, whatever the resource.
  It is the only failure that is reported and tolerated; the one other error that the
  transformation tolerates is an error of \<open>json.Indent\<close> on a fenced text of a comment,
  which is ignored without a report.
\<close>

theorem scalars_soft_failure:
  "(NewTemplate ext descs = Inl p \<longleftrightarrow> mapE (newFile ext) descs = Inl p) \<and>
   (\<forall>files. mapE (newFile ext) descs = Inr files \<longrightarrow>
      (\<forall>err. fetchResource ext ''scalars.json'' = Inl err \<longrightarrow>
         NewTemplate ext descs = Inr (\<lparr>Files = files, Scalars = None\<rparr>, [err])) \<and>
      (\<forall>data err. fetchResource ext ''scalars.json'' = Inr data \<and>
           jsonUnmarshal ext data = Inl err \<longrightarrow>
         NewTemplate ext descs = Inr (\<lparr>Files = files, Scalars = None\<rparr>, [err])) \<and>
      (\<forall>data scalars. fetchResource ext ''scalars.json'' = Inr data \<and>
           jsonUnmarshal ext data = Inr scalars \<longrightarrow>
         NewTemplate ext descs = Inr (\<lparr>Files = files, Scalars = scalars\<rparr>, []))) \<and>
   (sortSort ext' = sortSort ext \<and> jsonIndent ext' = jsonIndent ext \<and>
    Transform ext' = Transform ext \<longrightarrow>
      mapE (newFile ext') descs = mapE (newFile ext) descs) \<and>
   (\<forall>err. jsonIndent ext s = Inl err \<longrightarrow> IndentJson ext s = s)"
proof -
  have 1: "NewTemplate ext descs = Inl p \<longleftrightarrow> mapE (newFile ext) descs = Inl p"
    by (rule NewTemplate_Inl)
  have 2: "NewTemplate ext descs = Inr (\<lparr>Files = files, Scalars = None\<rparr>, [err])"
    if "mapE (newFile ext) descs = Inr files" "fetchResource ext ''scalars.json'' = Inl err"
    for files err
    using that by (simp add: NewTemplate_Inr makeScalars_cases(1))
  have 3: "NewTemplate ext descs = Inr (\<lparr>Files = files, Scalars = None\<rparr>, [err])"
    if "mapE (newFile ext) descs = Inr files" "fetchResource ext ''scalars.json'' = Inr data"
      "jsonUnmarshal ext data = Inl err"
    for files data err
    using that by (simp add: NewTemplate_Inr makeScalars_cases(2))
  have 4: "NewTemplate ext descs = Inr (\<lparr>Files = files, Scalars = scalars\<rparr>, [])"
    if "mapE (newFile ext) descs = Inr files" "fetchResource ext ''scalars.json'' = Inr data"
      "jsonUnmarshal ext data = Inr scalars"
    for files data scalars
    using that by (simp add: NewTemplate_Inr makeScalars_cases(3))
  have 5: "mapE (newFile ext') descs = mapE (newFile ext) descs"
    if "sortSort ext' = sortSort ext" "jsonIndent ext' = jsonIndent ext"
      "Transform ext' = Transform ext"
    using newFile_cong [OF that] by (rule arg_cong)
  have 6: "IndentJson ext s = s" if "jsonIndent ext s = Inl err" for err
    using that by (simp add: IndentJson_def)
  from 1 2 3 4 5 6 show ?thesis
    by blast
qed

theorem scalars_soft_failure_witness:
  "\<exists>files. mapE (newFile testExternals) [emptyFile] = Inr files \<and>
     NewTemplate testExternals [emptyFile] =
       Inr (\<lparr>Files = files, Scalars = None\<rparr>, [''resource not found'']) \<and>
     mapE (newFile (testExternals\<lparr>fetchResource := \<lambda>name. Inr ''[]''\<rparr>)) [emptyFile] = Inr files \<and>
     IndentJson testExternals ''{bad'' = ''{bad''"
proof -
  have "\<exists>file. newFile testExternals (emptyFile\<lparr>fd_SyntaxComments := fd_SyntaxComments emptyFile\<rparr>)
      = Inr file"
    unfolding newFile_emptyFile by blast
  then obtain files where files: "mapE (newFile testExternals) [emptyFile] = Inr files"
    by auto
  have r: "fetchResource testExternals ''scalars.json'' = Inl ''resource not found''"
    and j: "jsonIndent testExternals ''{bad'' = Inl ''invalid character''"
    by (simp_all add: testExternals_def exampleJsonIndent_def)
  have same: "sortSort (testExternals\<lparr>fetchResource := \<lambda>name. Inr ''[]''\<rparr>) = sortSort testExternals \<and>
    jsonIndent (testExternals\<lparr>fetchResource := \<lambda>name. Inr ''[]''\<rparr>) = jsonIndent testExternals \<and>
    Transform (testExternals\<lparr>fetchResource := \<lambda>name. Inr ''[]''\<rparr>) = Transform testExternals"
    by simp
  note T = scalars_soft_failure [where ext = testExternals and descs = "[emptyFile]"
      and s = "''{bad''" and p = IndexOutOfRange
      and ext' = "testExternals\<lparr>fetchResource := \<lambda>name. Inr ''[]''\<rparr>"]
  from T files r have a: "NewTemplate testExternals [emptyFile] =
       Inr (\<lparr>Files = files, Scalars = None\<rparr>, [''resource not found''])"
    by simp
  from T same files
  have b: "mapE (newFile (testExternals\<lparr>fetchResource := \<lambda>name. Inr ''[]''\<rparr>)) [emptyFile] = Inr files"
    by simp
  from T j have c: "IndentJson testExternals ''{bad'' = ''{bad''"
    by simp
  from files a b c show ?thesis
    by blast
qed

subsection \<open>Sorting\<close>

lemma sortContract_indices:
  assumes "sortContract srt"
  shows "set (srt ks) = {0..<length ks}"
proof -
  from assms have "mset (srt ks) = mset [0..<length ks]"
    by (simp add: sortContract_def)
  then have "set (srt ks) = set [0..<length ks]"
    by (rule mset_eq_setD)
  then show ?thesis by simp
qed

lemma mset_Sort:
  assumes "sortContract (sortSort ext)"
  shows "mset (Sort ext key xs) = mset xs"
proof -
  from assms have "mset (sortSort ext (map key xs)) = mset [0..<length xs]"
    by (simp add: sortContract_def)
  then have "mset (map (\<lambda>i. xs ! i) (sortSort ext (map key xs))) = mset (map (\<lambda>i. xs ! i) [0..<length xs])"
    by (metis mset_map)
  then show ?thesis
    by (simp add: Sort_def map_nth)
qed

lemma sorted_Sort:
  assumes "sortContract (sortSort ext)"
  shows "sorted (map key (Sort ext key xs))"
proof -
  have "map key (Sort ext key xs) = map (\<lambda>i. map key xs ! i) (sortSort ext (map key xs))"
    using sortContract_indices [OF assms, of "map key xs"]
    by (auto simp add: Sort_def)
  also from assms have "sorted \<dots>"
    by (simp add: sortContract_def)
  finally show ?thesis .
qed

lemma map_Sort:
  assumes "sortContract (sortSort ext)"
  shows "map key (Sort ext key xs) = sort (map key xs)"
proof -
  have "mset (map key (Sort ext key xs)) = mset (map key xs)"
    by (simp add: mset_Sort [OF assms])
  then show ?thesis
    by (rule properties_for_sort [symmetric, OF _ sorted_Sort [OF assms]])
qed

lemma mset_insertLeft: "mset (insertLeft ks p x) = add_mset x (mset p)"
proof -
  have "mset (rev (dropWhile (\<lambda>y. ks ! x < ks ! y) (rev p))) +
        mset (rev (takeWhile (\<lambda>y. ks ! x < ks ! y) (rev p))) = mset (rev p)"
    by (metis add.commute mset_append mset_rev takeWhile_dropWhile_id)
  then show ?thesis
    by (simp add: insertLeft_def)
qed

lemma mset_insertionSort_aux: "mset (foldl (insertLeft ks) acc p) = mset acc + mset p"
  by (induction p arbitrary: acc) (simp_all add: mset_insertLeft)

lemma sorted_insertLeft:
  assumes "sorted (map (\<lambda>i. ks ! i) p)"
  shows "sorted (map (\<lambda>i. ks ! i) (insertLeft ks p x))"
proof -
  let ?P = "\<lambda>y. ks ! x < ks ! y"
  let ?lo = "rev (dropWhile ?P (rev p))"
  let ?hi = "rev (takeWhile ?P (rev p))"
  have p: "p = ?lo @ ?hi"
    by (metis rev_append rev_rev_ident takeWhile_dropWhile_id)
  from assms have s: "sorted (map (\<lambda>i. ks ! i) (?lo @ ?hi))"
    using p by simp
  have gt: "\<forall>y\<in>set ?hi. ks ! x < ks ! y"
    by (auto dest: set_takeWhileD)
  have le: "\<forall>y\<in>set ?lo. ks ! y \<le> ks ! x"
  proof (cases "dropWhile ?P (rev p)")
    case Nil
    show ?thesis unfolding Nil by simp
  next
    case (Cons z zs)
    then have "\<not> ?P z"
      by (metis hd_dropWhile list.sel(1) list.distinct(1))
    then have zx: "ks ! z \<le> ks ! x" by simp
    from Cons have f: "?lo = rev zs @ [z]" by simp
    from s have "sorted (map (\<lambda>i. ks ! i) ?lo)"
      by (simp add: sorted_append)
    then have "\<forall>y\<in>set (rev zs). ks ! y \<le> ks ! z"
      unfolding f by (auto simp add: sorted_append)
    with zx show ?thesis
      unfolding f by auto
  qed
  from s le gt show ?thesis
    unfolding insertLeft_def by (auto simp add: sorted_append less_imp_le)
qed

lemma sorted_insertionSort_aux:
  "sorted (map (\<lambda>i. ks ! i) acc) \<Longrightarrow> sorted (map (\<lambda>i. ks ! i) (foldl (insertLeft ks) acc p))"
  by (induction p arbitrary: acc) (simp_all add: sorted_insertLeft)

lemma pdqsort_small:
  assumes "length p \<le> 12"
  shows "mset (pdqsort ks p) = mset p" and "sorted (map (\<lambda>i. ks ! i) (pdqsort ks p))"
  using assms
  by (simp_all add: pdqsort_def insertionSort_def mset_insertionSort_aux sorted_insertionSort_aux)

lemma scan_window:
  assumes "i \<le> j + 1" and "j < length q"
  shows "length (take (j + 1 - i) (drop i q)) = j + 1 - i"
    and "m < j + 1 - i \<Longrightarrow> take (j + 1 - i) (drop i q) ! m = q ! (i + m)"
  using assms by simp_all

lemma scanUp_props:
  assumes "i \<le> j + 1" and "j < length q"
  shows "scanUp ks q a i j \<le> j + 1"
    and "\<forall>x. i \<le> x \<and> x < scanUp ks q a i j \<longrightarrow> ks ! (q ! x) < ks ! (q ! a)"
    and "scanUp ks q a i j \<le> j \<longrightarrow> \<not> ks ! (q ! scanUp ks q a i j) < ks ! (q ! a)"
proof -
  define xs where "xs = take (j + 1 - i) (drop i q)"
  define P where "P = (\<lambda>x. ks ! x < ks ! (q ! a))"
  define n where "n = length (takeWhile P xs)"
  have len: "length xs = j + 1 - i"
    unfolding xs_def by (rule scan_window(1) [OF assms])
  have nth: "xs ! m = q ! (i + m)" if "m < j + 1 - i" for m
    unfolding xs_def using that by (rule scan_window(2) [OF assms])
  have s: "scanUp ks q a i j = i + n"
    by (simp add: scanUp_def n_def xs_def P_def)
  have n: "n \<le> j + 1 - i"
    unfolding n_def len [symmetric] by (rule length_takeWhile_le)
  with assms(1) show "scanUp ks q a i j \<le> j + 1"
    unfolding s by simp
  show "\<forall>x. i \<le> x \<and> x < scanUp ks q a i j \<longrightarrow> ks ! (q ! x) < ks ! (q ! a)"
  proof (intro allI impI)
    fix x
    assume "i \<le> x \<and> x < scanUp ks q a i j"
    then have m: "x - i < n" and x: "x = i + (x - i)"
      unfolding s by auto
    from m have "takeWhile P xs ! (x - i) \<in> set (takeWhile P xs)"
      unfolding n_def by (rule nth_mem)
    then have "P (takeWhile P xs ! (x - i))"
      by (rule set_takeWhileD [THEN conjunct2])
    moreover from m have "takeWhile P xs ! (x - i) = xs ! (x - i)"
      unfolding n_def by (rule takeWhile_nth)
    moreover from m n have "xs ! (x - i) = q ! (i + (x - i))"
      by (intro nth) simp
    ultimately have "P (q ! (i + (x - i)))"
      by simp
    with x show "ks ! (q ! x) < ks ! (q ! a)"
      unfolding P_def by simp
  qed
  show "scanUp ks q a i j \<le> j \<longrightarrow> \<not> ks ! (q ! scanUp ks q a i j) < ks ! (q ! a)"
  proof
    assume "scanUp ks q a i j \<le> j"
    then have lt: "n < j + 1 - i"
      unfolding s by simp
    then have "length (takeWhile P xs) < length xs"
      unfolding n_def len by simp
    then have "\<not> P (xs ! length (takeWhile P xs))"
      by (rule nth_length_takeWhile)
    then have "\<not> P (xs ! n)"
      unfolding n_def .
    with nth [OF lt] show "\<not> ks ! (q ! scanUp ks q a i j) < ks ! (q ! a)"
      unfolding s P_def by simp
  qed
qed

lemma scanDown_props:
  assumes "1 \<le> i" and "i \<le> j + 1" and "j < length q"
  shows "i \<le> scanDown ks q a i j + 1"
    and "\<forall>y. scanDown ks q a i j < y \<and> y \<le> j \<longrightarrow> \<not> ks ! (q ! y) < ks ! (q ! a)"
    and "i \<le> scanDown ks q a i j \<longrightarrow> ks ! (q ! scanDown ks q a i j) < ks ! (q ! a)"
proof -
  define xs where "xs = take (j + 1 - i) (drop i q)"
  define Q where "Q = (\<lambda>x. \<not> ks ! x < ks ! (q ! a))"
  define n where "n = length (takeWhile Q (rev xs))"
  have len: "length xs = j + 1 - i"
    unfolding xs_def by (rule scan_window(1) [OF assms(2,3)])
  have nth: "rev xs ! m = q ! (j - m)" if "m < j + 1 - i" for m
  proof -
    from that have "rev xs ! m = xs ! (length xs - Suc m)"
      unfolding len [symmetric] by (rule rev_nth)
    also have "\<dots> = xs ! (j - i - m)"
      unfolding len by simp
    also from that have "\<dots> = q ! (i + (j - i - m))"
      unfolding xs_def by (intro scan_window(2) [OF assms(2,3)]) simp
    also from that have "i + (j - i - m) = j - m"
      by simp
    finally show ?thesis .
  qed
  have s: "scanDown ks q a i j = j - n"
    by (simp add: scanDown_def n_def xs_def Q_def)
  have n: "n \<le> j + 1 - i"
    unfolding n_def using length_takeWhile_le [of Q "rev xs"] len by simp
  with assms(1,2) show "i \<le> scanDown ks q a i j + 1"
    unfolding s by simp
  show "\<forall>y. scanDown ks q a i j < y \<and> y \<le> j \<longrightarrow> \<not> ks ! (q ! y) < ks ! (q ! a)"
  proof (intro allI impI)
    fix y
    assume "scanDown ks q a i j < y \<and> y \<le> j"
    then have m: "j - y < n" and y: "j - (j - y) = y"
      unfolding s by auto
    from m have "takeWhile Q (rev xs) ! (j - y) \<in> set (takeWhile Q (rev xs))"
      unfolding n_def by (rule nth_mem)
    then have "Q (takeWhile Q (rev xs) ! (j - y))"
      by (rule set_takeWhileD [THEN conjunct2])
    moreover from m have "takeWhile Q (rev xs) ! (j - y) = rev xs ! (j - y)"
      unfolding n_def by (rule takeWhile_nth)
    moreover from m n have "rev xs ! (j - y) = q ! (j - (j - y))"
      by (intro nth) simp
    ultimately have "Q (q ! (j - (j - y)))"
      by simp
    then show "\<not> ks ! (q ! y) < ks ! (q ! a)"
      unfolding Q_def y .
  qed
  show "i \<le> scanDown ks q a i j \<longrightarrow> ks ! (q ! scanDown ks q a i j) < ks ! (q ! a)"
  proof
    assume "i \<le> scanDown ks q a i j"
    with assms(1) have lt: "n < j + 1 - i"
      unfolding s by simp
    then have "length (takeWhile Q (rev xs)) < length (rev xs)"
      unfolding n_def using len by simp
    then have "\<not> Q (rev xs ! length (takeWhile Q (rev xs)))"
      by (rule nth_length_takeWhile)
    then have "\<not> Q (rev xs ! n)"
      unfolding n_def .
    with nth [OF lt] show "ks ! (q ! scanDown ks q a i j) < ks ! (q ! a)"
      unfolding s Q_def by simp
  qed
qed

lemma length_swapAt: "length (swapAt xs i j) = length xs"
  by (simp add: swapAt_def)

lemma mset_swapAt: "i < length xs \<Longrightarrow> j < length xs \<Longrightarrow> mset (swapAt xs i j) = mset xs"
  by (simp add: swapAt_def mset_swap)

lemma swapAt_nth:
  "i < length xs \<Longrightarrow> j < length xs \<Longrightarrow>
   swapAt xs i j ! x = (if x = j then xs ! i else if x = i then xs ! j else xs ! x)"
  by (simp add: swapAt_def nth_list_update)

lemma partitionLoop_props:
  assumes "a < i" and "i \<le> j + 1" and "j < n" and "n \<le> length q"
    and "\<forall>x. a < x \<and> x < i \<longrightarrow> ks ! (q ! x) < ks ! (q ! a)"
    and "\<forall>y. j < y \<and> y < n \<longrightarrow> \<not> ks ! (q ! y) < ks ! (q ! a)"
  shows "length (fst (partitionLoop ks q a i j)) = length q \<and>
     mset (fst (partitionLoop ks q a i j)) = mset q \<and>
     fst (partitionLoop ks q a i j) ! a = q ! a \<and>
     a \<le> snd (partitionLoop ks q a i j) \<and> snd (partitionLoop ks q a i j) < n \<and>
     (\<forall>x. a < x \<and> x \<le> snd (partitionLoop ks q a i j) \<longrightarrow>
        ks ! (fst (partitionLoop ks q a i j) ! x) < ks ! (q ! a)) \<and>
     (\<forall>y. snd (partitionLoop ks q a i j) < y \<and> y < n \<longrightarrow>
        \<not> ks ! (fst (partitionLoop ks q a i j) ! y) < ks ! (q ! a))"
  using assms
proof (induction ks q a i j rule: partitionLoop.induct)
  case (1 ks q a i j)
  define i' where "i' = scanUp ks q a i j"
  define j' where "j' = scanDown ks q a i' j"
  from "1.prems"(3,4) have jl: "j < length q"
    by simp
  note U = scanUp_props [OF "1.prems"(2) jl, of ks a, folded i'_def]
  have ii: "i \<le> i'"
    unfolding i'_def by (rule scanUp_ge)
  with "1.prems"(1) have i1: "1 \<le> i'" and ai: "a < i'"
    by simp_all
  note D = scanDown_props [OF i1 U(1) jl, of ks a, folded j'_def]
  have jj: "j' \<le> j"
    unfolding j'_def by (rule scanDown_le)
  show ?case
  proof (cases "j' < i'")
    case True
    then have r: "partitionLoop ks q a i j = (q, j')"
      by (simp add: partitionLoop.simps [of ks q a i j] i'_def j'_def)
    have lo: "\<forall>x. a < x \<and> x \<le> j' \<longrightarrow> ks ! (q ! x) < ks ! (q ! a)"
    proof (intro allI impI)
      fix x
      assume x: "a < x \<and> x \<le> j'"
      show "ks ! (q ! x) < ks ! (q ! a)"
      proof (cases "x < i")
        case True
        with x "1.prems"(5) show ?thesis
          by simp
      next
        case False
        with x \<open>j' < i'\<close> have "i \<le> x \<and> x < i'"
          by simp
        with U(2) show ?thesis
          by simp
      qed
    qed
    have hi: "\<forall>y. j' < y \<and> y < n \<longrightarrow> \<not> ks ! (q ! y) < ks ! (q ! a)"
    proof (intro allI impI)
      fix y
      assume y: "j' < y \<and> y < n"
      show "\<not> ks ! (q ! y) < ks ! (q ! a)"
      proof (cases "j < y")
        case True
        with y "1.prems"(6) show ?thesis
          by simp
      next
        case False
        with y have "j' < y \<and> y \<le> j"
          by simp
        with D(2) show ?thesis
          by simp
      qed
    qed
    from D(1) ai have "a \<le> j'"
      by simp
    moreover from jj "1.prems"(3) have "j' < n"
      by simp
    ultimately show ?thesis
      unfolding r fst_conv snd_conv using lo hi by simp
  next
    case False
    then have le: "i' \<le> j'"
      by simp
    with jj have "i' \<le> j"
      by simp
    with U(3) have nu: "\<not> ks ! (q ! i') < ks ! (q ! a)"
      by simp
    from le D(3) have dn: "ks ! (q ! j') < ks ! (q ! a)"
      by simp
    from nu dn have "i' \<noteq> j'"
      by auto
    with le have lt: "i' < j'"
      by simp
    define q' where "q' = swapAt q i' j'"
    from lt jj jl have il: "i' < length q" and jl': "j' < length q"
      by simp_all
    have r: "partitionLoop ks q a i j = partitionLoop ks q' a (i' + 1) (j' - 1)"
      using False by (simp add: partitionLoop.simps [of ks q a i j] i'_def j'_def q'_def)
    have len: "length q' = length q"
      unfolding q'_def by (rule length_swapAt)
    have ms: "mset q' = mset q"
      unfolding q'_def by (rule mset_swapAt [OF il jl'])
    have nth: "q' ! x = (if x = j' then q ! i' else if x = i' then q ! j' else q ! x)" for x
      unfolding q'_def by (rule swapAt_nth [OF il jl'])
    from ai lt have qa: "q' ! a = q ! a"
      by (simp add: nth)
    have p1: "a < i' + 1"
      using ai by simp
    have p2: "i' + 1 \<le> j' - 1 + 1"
      using lt by simp
    have p3: "j' - 1 < n"
      using jj "1.prems"(3) by simp
    have p4: "n \<le> length q'"
      unfolding len by (rule "1.prems"(4))
    have p5: "\<forall>x. a < x \<and> x < i' + 1 \<longrightarrow> ks ! (q' ! x) < ks ! (q' ! a)"
    proof (intro allI impI)
      fix x
      assume x: "a < x \<and> x < i' + 1"
      show "ks ! (q' ! x) < ks ! (q' ! a)"
      proof (cases "x = i'")
        case True
        with lt have "q' ! x = q ! j'"
          by (simp add: nth)
        with dn show ?thesis
          unfolding qa by simp
      next
        case False
        with x lt have e: "q' ! x = q ! x"
          by (simp add: nth)
        show ?thesis
        proof (cases "x < i")
          case True
          with x "1.prems"(5) show ?thesis
            unfolding qa e by simp
        next
          case ge: False
          with x False have "i \<le> x \<and> x < i'"
            by simp
          with U(2) show ?thesis
            unfolding qa e by simp
        qed
      qed
    qed
    have p6: "\<forall>y. j' - 1 < y \<and> y < n \<longrightarrow> \<not> ks ! (q' ! y) < ks ! (q' ! a)"
    proof (intro allI impI)
      fix y
      assume y: "j' - 1 < y \<and> y < n"
      show "\<not> ks ! (q' ! y) < ks ! (q' ! a)"
      proof (cases "y = j'")
        case True
        then have "q' ! y = q ! i'"
          by (simp add: nth)
        with nu show ?thesis
          unfolding qa by simp
      next
        case False
        with y have gt: "j' < y"
          by auto
        with lt False have e: "q' ! y = q ! y"
          by (simp add: nth)
        show ?thesis
        proof (cases "j < y")
          case True
          with y "1.prems"(6) show ?thesis
            unfolding qa e by simp
        next
          case ge: False
          with gt have "j' < y \<and> y \<le> j"
            by simp
          with D(2) show ?thesis
            unfolding qa e by simp
        qed
      qed
    qed
    have "\<not> scanDown ks q a (scanUp ks q a i j) j < scanUp ks q a i j"
      using False unfolding i'_def j'_def .
    note IH = "1.IH" [OF this, folded i'_def, folded j'_def, folded q'_def, OF p1 p2 p3 p4 p5 p6]
    show ?thesis
      unfolding r using IH unfolding len ms qa .
  qed
qed

lemma partitionData_loop:
  "fst (partitionData ks p a b pivot) =
     swapAt (fst (partitionLoop ks (swapAt p a pivot) a (a + 1) (b - 1)))
       (snd (partitionLoop ks (swapAt p a pivot) a (a + 1) (b - 1))) a"
  "fst (snd (partitionData ks p a b pivot)) =
     snd (partitionLoop ks (swapAt p a pivot) a (a + 1) (b - 1))"
proof -
  define p1 where "p1 = swapAt p a pivot"
  define i where "i = scanUp ks p1 a (a + 1) (b - 1)"
  define j where "j = scanDown ks p1 a i (b - 1)"
  have L: "partitionLoop ks p1 a (a + 1) (b - 1) =
      (if j < i then (p1, j) else partitionLoop ks (swapAt p1 i j) a (i + 1) (j - 1))"
    unfolding i_def j_def by (rule partitionLoop.simps)
  have D: "partitionData ks p a b pivot =
      (if j < i then (swapAt p1 j a, j, True)
       else (case partitionLoop ks (swapAt p1 i j) a (i + 1) (j - 1) of
               (p, j) \<Rightarrow> (swapAt p j a, j, False)))"
    unfolding partitionData_def Let_def p1_def i_def j_def ..
  show "fst (partitionData ks p a b pivot) =
     swapAt (fst (partitionLoop ks (swapAt p a pivot) a (a + 1) (b - 1)))
       (snd (partitionLoop ks (swapAt p a pivot) a (a + 1) (b - 1))) a"
    unfolding p1_def [symmetric] D L by (simp add: case_prod_beta)
  show "fst (snd (partitionData ks p a b pivot)) =
     snd (partitionLoop ks (swapAt p a pivot) a (a + 1) (b - 1))"
    unfolding p1_def [symmetric] D L by (simp add: case_prod_beta)
qed

lemma partitionData_props:
  assumes "pivot < length p"
  shows "length (fst (partitionData ks p 0 (length p) pivot)) = length p"
    and "mset (fst (partitionData ks p 0 (length p) pivot)) = mset p"
    and "fst (snd (partitionData ks p 0 (length p) pivot)) < length p"
    and "\<forall>x. x < fst (snd (partitionData ks p 0 (length p) pivot)) \<longrightarrow>
           ks ! (fst (partitionData ks p 0 (length p) pivot) ! x) <
           ks ! (fst (partitionData ks p 0 (length p) pivot) !
                   fst (snd (partitionData ks p 0 (length p) pivot)))"
    and "\<forall>y. fst (snd (partitionData ks p 0 (length p) pivot)) < y \<and> y < length p \<longrightarrow>
           \<not> ks ! (fst (partitionData ks p 0 (length p) pivot) ! y) <
             ks ! (fst (partitionData ks p 0 (length p) pivot) !
                     fst (snd (partitionData ks p 0 (length p) pivot)))"
proof -
  define p1 where "p1 = swapAt p 0 pivot"
  define q where "q = fst (partitionLoop ks p1 0 (0 + 1) (length p - 1))"
  define mid where "mid = snd (partitionLoop ks p1 0 (0 + 1) (length p - 1))"
  from assms have pos: "0 < length p"
    by (cases p) simp_all
  have l1: "length p1 = length p"
    unfolding p1_def by (rule length_swapAt)
  have m1: "mset p1 = mset p"
    unfolding p1_def using pos assms by (rule mset_swapAt)
  have "(0::nat) < 0 + 1" and "0 + 1 \<le> length p - 1 + 1" and "length p - 1 < length p"
    and "length p \<le> length p1"
    and "\<forall>x. 0 < x \<and> x < 0 + 1 \<longrightarrow> ks ! (p1 ! x) < ks ! (p1 ! 0)"
    and "\<forall>y. length p - 1 < y \<and> y < length p \<longrightarrow> \<not> ks ! (p1 ! y) < ks ! (p1 ! 0)"
    using pos l1 by (simp, linarith, linarith, simp, simp, auto)
  note L = partitionLoop_props [OF this, folded q_def mid_def]
  from L have lq: "length q = length p"
    unfolding l1 by (rule conjunct1)
  from L have mq: "mset q = mset p"
    unfolding m1 by (rule conjunct2 [THEN conjunct1])
  from L have q0: "q ! 0 = p1 ! 0"
    by (rule conjunct2 [THEN conjunct2, THEN conjunct1])
  from L have ml: "mid < length p"
    by (rule conjunct2 [THEN conjunct2, THEN conjunct2, THEN conjunct2, THEN conjunct1])
  from L have lo: "\<forall>x. 0 < x \<and> x \<le> mid \<longrightarrow> ks ! (q ! x) < ks ! (q ! 0)"
    unfolding q0 [symmetric]
    by (rule conjunct2 [THEN conjunct2, THEN conjunct2, THEN conjunct2, THEN conjunct2,
          THEN conjunct1])
  from L have hi: "\<forall>y. mid < y \<and> y < length p \<longrightarrow> \<not> ks ! (q ! y) < ks ! (q ! 0)"
    unfolding q0 [symmetric]
    by (rule conjunct2 [THEN conjunct2, THEN conjunct2, THEN conjunct2, THEN conjunct2,
          THEN conjunct2])
  have f: "fst (partitionData ks p 0 (length p) pivot) = swapAt q mid 0"
    unfolding partitionData_loop q_def mid_def p1_def ..
  have s: "fst (snd (partitionData ks p 0 (length p) pivot)) = mid"
    unfolding partitionData_loop mid_def p1_def ..
  from ml pos have mb: "mid < length q" and zb: "0 < length q"
    unfolding lq by simp_all
  have nth: "swapAt q mid 0 ! x = (if x = 0 then q ! mid else if x = mid then q ! 0 else q ! x)"
    for x
    by (rule swapAt_nth [OF mb zb])
  have pm: "swapAt q mid 0 ! mid = q ! 0"
    by (simp add: nth)
  show "length (fst (partitionData ks p 0 (length p) pivot)) = length p"
    unfolding f length_swapAt by (rule lq)
  show "mset (fst (partitionData ks p 0 (length p) pivot)) = mset p"
    unfolding f mset_swapAt [OF mb zb] by (rule mq)
  show "fst (snd (partitionData ks p 0 (length p) pivot)) < length p"
    unfolding s by (rule ml)
  show "\<forall>x. x < fst (snd (partitionData ks p 0 (length p) pivot)) \<longrightarrow>
           ks ! (fst (partitionData ks p 0 (length p) pivot) ! x) <
           ks ! (fst (partitionData ks p 0 (length p) pivot) !
                   fst (snd (partitionData ks p 0 (length p) pivot)))"
    unfolding f s pm
  proof (intro allI impI)
    fix x
    assume x: "x < mid"
    show "ks ! (swapAt q mid 0 ! x) < ks ! (q ! 0)"
    proof (cases "x = 0")
      case True
      with x have "swapAt q mid 0 ! x = q ! mid" and "0 < mid \<and> mid \<le> mid"
        by (simp_all add: nth)
      with lo show ?thesis
        by simp
    next
      case False
      with x have "swapAt q mid 0 ! x = q ! x" and "0 < x \<and> x \<le> mid"
        by (simp_all add: nth)
      with lo show ?thesis
        by simp
    qed
  qed
  show "\<forall>y. fst (snd (partitionData ks p 0 (length p) pivot)) < y \<and> y < length p \<longrightarrow>
           \<not> ks ! (fst (partitionData ks p 0 (length p) pivot) ! y) <
             ks ! (fst (partitionData ks p 0 (length p) pivot) !
                     fst (snd (partitionData ks p 0 (length p) pivot)))"
    unfolding f s pm
  proof (intro allI impI)
    fix y
    assume y: "mid < y \<and> y < length p"
    then have "swapAt q mid 0 ! y = q ! y"
      by (simp add: nth)
    with hi y show "\<not> ks ! (swapAt q mid 0 ! y) < ks ! (q ! 0)"
      by simp
  qed
qed

lemma set_insertionSort_aux: "set (foldl (insertLeft ks) [] p) = set p"
  using mset_insertionSort_aux [of ks "[]" p, THEN arg_cong, of set_mset] by simp

lemma length_insertionSort_aux: "length (foldl (insertLeft ks) [] p) = length p"
  using mset_insertionSort_aux [of ks "[]" p, THEN arg_cong, of size] by simp

lemma insertionSort_parts:
  assumes "mid < length q"
  shows "insertionSort ks (insertionSort ks q 0 mid) (mid + 1) (length q) =
     foldl (insertLeft ks) [] (take mid q) @ q ! mid #
     foldl (insertLeft ks) [] (drop (mid + 1) q)"
proof -
  have 1: "insertionSort ks q 0 mid = foldl (insertLeft ks) [] (take mid q) @ drop mid q"
    by (simp add: insertionSort_def)
  have l: "length (foldl (insertLeft ks) [] (take mid q)) = mid"
    unfolding length_insertionSort_aux using assms by simp
  have d: "drop mid q = q ! mid # drop (mid + 1) q"
    using assms by (simp add: Cons_nth_drop_Suc)
  show ?thesis
    unfolding 1 insertionSort_def using assms by (simp add: l d)
qed

lemma median_cases: "fst (median ks p a b c s) \<in> {a, b, c}"
  by (simp add: median_def order2_def)

lemma choosePivot_less:
  assumes "8 \<le> length p"
  shows "fst (choosePivot ks p 0 (length p)) < length p"
proof -
  have "fst (choosePivot ks p 0 (length p)) \<in>
      {length p div 4 * 1, length p div 4 * 2, length p div 4 * 3}"
    using assms median_cases [of ks p "0 + length p div 4 * 1" "0 + length p div 4 * 2"
        "0 + length p div 4 * 3" 0]
    by (simp add: choosePivot_def Let_def)
  with assms show ?thesis
    by auto
qed

lemma partialInsertionSort_sorted:
  assumes "partialInsertionSort ks p 0 (length p)"
  shows "sorted (map (\<lambda>i. ks ! i) p)"
proof -
  have "map (\<lambda>i. ks ! i) p ! i \<le> map (\<lambda>i. ks ! i) p ! Suc i"
    if "Suc i < length (map (\<lambda>i. ks ! i) p)" for i
  proof -
    from that have "Suc i \<in> set [0 + 1..<length p]"
      by simp
    with assms have "\<not> dataLess ks p (Suc i) (Suc i - 1)"
      unfolding partialInsertionSort_def list_all_iff by blast
    with that show ?thesis
      by (simp add: dataLess_def)
  qed
  then show ?thesis
    unfolding sorted_iff_nth_Suc by blast
qed

lemma pdqsort_partitioned:
  assumes "pivot < length p"
  shows "mset (insertionSort ks
            (insertionSort ks (fst (partitionData ks p 0 (length p) pivot)) 0
               (fst (snd (partitionData ks p 0 (length p) pivot))))
            (fst (snd (partitionData ks p 0 (length p) pivot)) + 1) (length p)) = mset p"
    and "sorted (map (\<lambda>i. ks ! i) (insertionSort ks
            (insertionSort ks (fst (partitionData ks p 0 (length p) pivot)) 0
               (fst (snd (partitionData ks p 0 (length p) pivot))))
            (fst (snd (partitionData ks p 0 (length p) pivot)) + 1) (length p)))"
proof -
  define q where "q = fst (partitionData ks p 0 (length p) pivot)"
  define mid where "mid = fst (snd (partitionData ks p 0 (length p) pivot))"
  note P = partitionData_props [OF assms, of ks, folded q_def mid_def]
  from P(1,3) have ml: "mid < length q"
    by simp
  have parts: "insertionSort ks (insertionSort ks q 0 mid) (mid + 1) (length p) =
      foldl (insertLeft ks) [] (take mid q) @ q ! mid #
      foldl (insertLeft ks) [] (drop (mid + 1) q)"
    unfolding P(1) [symmetric] by (rule insertionSort_parts [OF ml])
  have "mset (take mid q) + add_mset (q ! mid) (mset (drop (mid + 1) q)) = mset q"
    using id_take_nth_drop [OF ml, THEN arg_cong, of mset] by simp
  then show "mset (insertionSort ks (insertionSort ks q 0 mid) (mid + 1) (length p)) = mset p"
    unfolding parts P(2) [symmetric] by (simp add: mset_insertionSort_aux)
  have lo: "ks ! x \<le> ks ! (q ! mid)" if "x \<in> set (take mid q)" for x
  proof -
    from that obtain i where "i < length (take mid q)" and "take mid q ! i = x"
      unfolding in_set_conv_nth by blast
    then have "i < mid" and "q ! i = x"
      by simp_all
    with P(4) show ?thesis
      by (auto simp add: less_imp_le)
  qed
  have hi: "ks ! (q ! mid) \<le> ks ! y" if "y \<in> set (drop (mid + 1) q)" for y
  proof -
    from that obtain i where i: "i < length (drop (mid + 1) q)" and "drop (mid + 1) q ! i = y"
      unfolding in_set_conv_nth by blast
    then have "q ! (mid + 1 + i) = y"
      by simp
    moreover from i have "mid < mid + 1 + i \<and> mid + 1 + i < length p"
      unfolding P(1) [symmetric] by simp
    ultimately show ?thesis
      using P(5) by (auto simp add: not_less)
  qed
  show "sorted (map (\<lambda>i. ks ! i) (insertionSort ks (insertionSort ks q 0 mid) (mid + 1) (length p)))"
    unfolding parts
    using lo hi order_trans [OF lo hi]
    by (simp add: sorted_append sorted_insertionSort_aux set_insertionSort_aux)
qed

lemma pdqsort_contract:
  "mset (pdqsort ks p) = mset p" "sorted (map (\<lambda>i. ks ! i) (pdqsort ks p))"
proof -
  have "mset (pdqsort ks p) = mset p \<and> sorted (map (\<lambda>i. ks ! i) (pdqsort ks p))"
  proof (cases "length p \<le> 12")
    case True
    then show ?thesis
      by (simp add: pdqsort_small)
  next
    case False
    then have "fst (choosePivot ks p 0 (length p)) < length p"
      by (intro choosePivot_less) simp
    note S = pdqsort_partitioned [OF this, of ks]
    show ?thesis
    proof (cases "snd (choosePivot ks p 0 (length p)) = 0 \<and> partialInsertionSort ks p 0 (length p)")
      case True
      with False show ?thesis
        by (simp add: pdqsort_def Let_def case_prod_beta partialInsertionSort_sorted)
    next
      case no: False
      with False S show ?thesis
        by (auto simp add: pdqsort_def Let_def case_prod_beta)
    qed
  qed
  then show "mset (pdqsort ks p) = mset p" "sorted (map (\<lambda>i. ks ! i) (pdqsort ks p))"
    by simp_all
qed

lemma sortContract_pdqsortExternals: "sortContract (sortSort pdqsortExternals)"
  by (simp add: sortContract_def pdqsortExternals_def pdqsort_contract)

lemma sortContract_testExternals: "sortContract (sortSort testExternals)"
  by (simp add: sortContract_def testExternals_def)

subsection \<open>Files\<close>

lemma populateFile_Inr:
  assumes "populateFile ext f = Inr fl"
  shows "map (parseMessage ext) (allMessages f) = map Inr (File_Messages fl)"
    and "File_Enums fl = map (parseEnum ext) (fd_Enums f) @ nestedEnums ext (allMessages f)"
    and "File_Extensions fl = map (parseFileExtension ext) (fd_Extensions f)"
    and "File_Services fl = map (parseService ext) (fd_Services f)"
proof -
  from assms obtain msgs where m: "mapE (parseMessage ext) (allMessages f) = Inr msgs"
    by (auto simp add: populateFile_eq split: sum.splits)
  with assms have fl: "File_Messages fl = msgs"
    "File_Enums fl = map (parseEnum ext) (fd_Enums f) @ nestedEnums ext (allMessages f)"
    "File_Extensions fl = map (parseFileExtension ext) (fd_Extensions f)"
    "File_Services fl = map (parseService ext) (fd_Services f)"
    by (auto simp add: populateFile_eq)
  from m fl(1) show "map (parseMessage ext) (allMessages f) = map Inr (File_Messages fl)"
    by (simp add: mapE_Inr_iff)
  from fl show "File_Enums fl = map (parseEnum ext) (fd_Enums f) @ nestedEnums ext (allMessages f)"
    "File_Extensions fl = map (parseFileExtension ext) (fd_Extensions f)"
    "File_Services fl = map (parseService ext) (fd_Services f)"
    by simp_all
qed

lemma newFile_Inr:
  assumes "newFile ext f = Inr fl"
  obtains fl0 where "populateFile ext f = Inr fl0"
    and "File_Enums fl = Sort ext Enum_LongName (File_Enums fl0)"
    and "File_Extensions fl = Sort ext FExt_LongName (File_Extensions fl0)"
    and "File_Messages fl = Sort ext Msg_LongName (File_Messages fl0)"
    and "File_Services fl = Sort ext Svc_LongName (File_Services fl0)"
  using assms by (auto simp add: newFile_def sortFile_def split: sum.splits)

lemma mapE_succeeds: "(\<forall>x\<in>set xs. \<exists>y. f x = Inr y) \<Longrightarrow> \<exists>ys. mapE f xs = Inr ys"
  by (induction xs) auto

lemma parseMessage_succeeds:
  "d_Extensions d = [] \<Longrightarrow> d_Fields d = [] \<Longrightarrow> \<exists>m. parseMessage ext d = Inr m"
  by (simp add: parseMessage_def Let_def split: prod.splits)

lemma parseMessage_LongName: "parseMessage ext d = Inr m \<Longrightarrow> Msg_LongName m = d_LongName d"
  by (auto simp add: parseMessage_def Let_def split: prod.splits sum.splits)

lemma parseEnum_LongName: "Enum_LongName (parseEnum ext pe) = ed_LongName pe"
  by (simp add: parseEnum_def Let_def split: prod.splits)

lemma map_Msg_LongName:
  "map (parseMessage ext) ds = map Inr ms \<Longrightarrow> map Msg_LongName ms = map d_LongName ds"
proof (induction ds arbitrary: ms)
  case Nil
  then show ?case by simp
next
  case (Cons d ds)
  then show ?case
    by (cases ms) (auto simp add: parseMessage_LongName)
qed

lemma map_Enum_LongName_nestedEnums:
  "map Enum_LongName (nestedEnums ext ds) = concat (map (\<lambda>d. map ed_LongName (d_Enums d)) ds)"
  by (induction ds) (simp_all add: nestedEnums_def parseEnum_LongName comp_def)

lemma allMessages_nestedFile:
  "allMessages nestedFile =
     [simpleMessage ''Outer'' ''Outer'' [simpleEnum ''Kind'' ''Outer.Kind'' '''']
        [simpleMessage ''Inner'' ''Outer.Inner'' [simpleEnum ''Mode'' ''Outer.Inner.Mode'' '''']
           [simpleMessage ''Deep'' ''Outer.Inner.Deep'' [] []],
         simpleMessage ''Side'' ''Outer.Side'' [] []],
      simpleMessage ''Inner'' ''Outer.Inner'' [simpleEnum ''Mode'' ''Outer.Inner.Mode'' '''']
        [simpleMessage ''Deep'' ''Outer.Inner.Deep'' [] []],
      simpleMessage ''Deep'' ''Outer.Inner.Deep'' [] [],
      simpleMessage ''Side'' ''Outer.Side'' [] [],
      simpleMessage ''Base'' ''Base'' [] []]"
  by (simp add: allMessages_def nestedFile_def emptyFile_def preorder.simps simpleMessage_def)

lemma populateFile_nestedFile:
  "\<exists>fl. populateFile ext nestedFile = Inr fl \<and>
     map Msg_LongName (File_Messages fl) =
       [''Outer'', ''Outer.Inner'', ''Outer.Inner.Deep'', ''Outer.Side'', ''Base''] \<and>
     map Enum_LongName (File_Enums fl) = [''Zone'', ''Outer.Kind'', ''Outer.Inner.Mode'']"
proof -
  have "\<forall>d\<in>set (allMessages nestedFile). \<exists>m. parseMessage ext d = Inr m"
    unfolding allMessages_nestedFile
    by (simp add: parseMessage_succeeds simpleMessage_def)
  then have "\<exists>ms. mapE (parseMessage ext) (allMessages nestedFile) = Inr ms"
    by (rule mapE_succeeds)
  then obtain fl where fl: "populateFile ext nestedFile = Inr fl"
    by (auto simp add: populateFile_eq)
  have 1: "map Msg_LongName (File_Messages fl) = map d_LongName (allMessages nestedFile)"
    by (rule map_Msg_LongName [OF populateFile_Inr(1) [OF fl]])
  have 2: "map Enum_LongName (File_Enums fl) =
      map ed_LongName (fd_Enums nestedFile) @
      concat (map (\<lambda>d. map ed_LongName (d_Enums d)) (allMessages nestedFile))"
    by (simp add: populateFile_Inr(2) [OF fl] map_Enum_LongName_nestedEnums
        parseEnum_LongName comp_def)
  have 3: "map d_LongName (allMessages nestedFile) =
      [''Outer'', ''Outer.Inner'', ''Outer.Inner.Deep'', ''Outer.Side'', ''Base'']"
    unfolding allMessages_nestedFile by (simp add: simpleMessage_def)
  have 4: "map ed_LongName (fd_Enums nestedFile) @
      concat (map (\<lambda>d. map ed_LongName (d_Enums d)) (allMessages nestedFile)) =
      [''Zone'', ''Outer.Kind'', ''Outer.Inner.Mode'']"
    unfolding allMessages_nestedFile
    by (simp add: nestedFile_def emptyFile_def simpleMessage_def simpleEnum_def)
  from fl 1 2 3 4 show ?thesis
    by simp
qed

subsection \<open>The tree walker: flattening\<close>

lemma populateFile_Inl:
  "populateFile ext f = Inl e \<longleftrightarrow> mapE (parseMessage ext) (allMessages f) = Inl e"
  by (cases "mapE (parseMessage ext) (allMessages f)") (simp_all add: populateFile_eq)

lemma newFile_mset:
  assumes c: "sortContract (sortSort ext)" and n: "newFile ext f = Inr fl1"
  shows "mset (map Inr (File_Messages fl1)) = mset (map (parseMessage ext) (allMessages f))"
    and "mset (File_Enums fl1) =
           mset (map (parseEnum ext) (fd_Enums f) @ nestedEnums ext (allMessages f))"
    and "mset (File_Extensions fl1) = mset (map (parseFileExtension ext) (fd_Extensions f))"
    and "mset (File_Services fl1) = mset (map (parseService ext) (fd_Services f))"
proof -
  from n obtain fl0 where fl0: "populateFile ext f = Inr fl0"
    and e: "File_Enums fl1 = Sort ext Enum_LongName (File_Enums fl0)"
    and x: "File_Extensions fl1 = Sort ext FExt_LongName (File_Extensions fl0)"
    and m: "File_Messages fl1 = Sort ext Msg_LongName (File_Messages fl0)"
    and s: "File_Services fl1 = Sort ext Svc_LongName (File_Services fl0)"
    by (rule newFile_Inr)
  have "mset (File_Messages fl1) = mset (File_Messages fl0)"
    unfolding m by (rule mset_Sort [OF c])
  then have "mset (map Inr (File_Messages fl1)) = mset (map Inr (File_Messages fl0))"
    by (metis mset_map)
  then show "mset (map Inr (File_Messages fl1)) = mset (map (parseMessage ext) (allMessages f))"
    unfolding populateFile_Inr(1) [OF fl0] .
  show "mset (File_Enums fl1) =
           mset (map (parseEnum ext) (fd_Enums f) @ nestedEnums ext (allMessages f))"
    unfolding e populateFile_Inr(2) [OF fl0, symmetric] by (rule mset_Sort [OF c])
  show "mset (File_Extensions fl1) = mset (map (parseFileExtension ext) (fd_Extensions f))"
    unfolding x populateFile_Inr(3) [OF fl0, symmetric] by (rule mset_Sort [OF c])
  show "mset (File_Services fl1) = mset (map (parseService ext) (fd_Services f))"
    unfolding s populateFile_Inr(4) [OF fl0, symmetric] by (rule mset_Sort [OF c])
qed

lemma newFile_sorted:
  assumes c: "sortContract (sortSort ext)" and n: "newFile ext f = Inr fl1"
  shows "sorted (map Enum_LongName (File_Enums fl1))"
    and "sorted (map FExt_LongName (File_Extensions fl1))"
    and "sorted (map Msg_LongName (File_Messages fl1))"
    and "sorted (map Svc_LongName (File_Services fl1))"
proof -
  from n obtain fl0 where fl0: "populateFile ext f = Inr fl0"
    and e: "File_Enums fl1 = Sort ext Enum_LongName (File_Enums fl0)"
    and x: "File_Extensions fl1 = Sort ext FExt_LongName (File_Extensions fl0)"
    and m: "File_Messages fl1 = Sort ext Msg_LongName (File_Messages fl0)"
    and s: "File_Services fl1 = Sort ext Svc_LongName (File_Services fl0)"
    by (rule newFile_Inr)
  show "sorted (map Enum_LongName (File_Enums fl1))"
    unfolding e by (rule sorted_Sort [OF c])
  show "sorted (map FExt_LongName (File_Extensions fl1))"
    unfolding x by (rule sorted_Sort [OF c])
  show "sorted (map Msg_LongName (File_Messages fl1))"
    unfolding m by (rule sorted_Sort [OF c])
  show "sorted (map Svc_LongName (File_Services fl1))"
    unfolding s by (rule sorted_Sort [OF c])
qed

lemma sort_nested_names:
  "sort [''Outer'', ''Outer.Inner'', ''Outer.Inner.Deep'', ''Outer.Side'', ''Base''] =
     [''Base'', ''Outer'', ''Outer.Inner'', ''Outer.Inner.Deep'', ''Outer.Side'']"
  "sort [''Zone'', ''Outer.Kind'', ''Outer.Inner.Mode''] =
     [''Outer.Inner.Mode'', ''Outer.Kind'', ''Zone'']"
  by simp_all

lemma allMessages_nestedFile_names:
  "map d_LongName (allMessages nestedFile) =
     [''Outer'', ''Outer.Inner'', ''Outer.Inner.Deep'', ''Outer.Side'', ''Base'']"
  unfolding allMessages_nestedFile by (simp add: simpleMessage_def)

lemma populateFile_nestedFile_names:
  "map_sum id (\<lambda>fl. (map Msg_LongName (File_Messages fl), map Enum_LongName (File_Enums fl)))
     (populateFile ext nestedFile) =
     Inr ([''Outer'', ''Outer.Inner'', ''Outer.Inner.Deep'', ''Outer.Side'', ''Base''],
          [''Zone'', ''Outer.Kind'', ''Outer.Inner.Mode''])"
proof -
  from populateFile_nestedFile [of ext] obtain fl0 where h:
    "populateFile ext nestedFile = Inr fl0 \<and>
     map Msg_LongName (File_Messages fl0) =
       [''Outer'', ''Outer.Inner'', ''Outer.Inner.Deep'', ''Outer.Side'', ''Base''] \<and>
     map Enum_LongName (File_Enums fl0) = [''Zone'', ''Outer.Kind'', ''Outer.Inner.Mode'']" ..
  from h have fl0: "populateFile ext nestedFile = Inr fl0"
    by (rule conjunct1)
  from h have lm: "map Msg_LongName (File_Messages fl0) =
       [''Outer'', ''Outer.Inner'', ''Outer.Inner.Deep'', ''Outer.Side'', ''Base'']"
    by (rule conjunct2 [THEN conjunct1])
  from h have le: "map Enum_LongName (File_Enums fl0) = [''Zone'', ''Outer.Kind'', ''Outer.Inner.Mode'']"
    by (rule conjunct2 [THEN conjunct2])
  show ?thesis
    unfolding fl0 by (simp add: lm le)
qed

lemma newFile_nestedFile_names:
  assumes c: "sortContract (sortSort ext)"
  shows "map_sum id (\<lambda>fl. (map Msg_LongName (File_Messages fl), map Enum_LongName (File_Enums fl)))
        (newFile ext nestedFile) =
        Inr ([''Base'', ''Outer'', ''Outer.Inner'', ''Outer.Inner.Deep'', ''Outer.Side''],
             [''Outer.Inner.Mode'', ''Outer.Kind'', ''Zone''])"
proof -
  from populateFile_nestedFile [of ext] obtain fl0 where h:
    "populateFile ext nestedFile = Inr fl0 \<and>
     map Msg_LongName (File_Messages fl0) =
       [''Outer'', ''Outer.Inner'', ''Outer.Inner.Deep'', ''Outer.Side'', ''Base''] \<and>
     map Enum_LongName (File_Enums fl0) = [''Zone'', ''Outer.Kind'', ''Outer.Inner.Mode'']" ..
  from h have fl0: "populateFile ext nestedFile = Inr fl0"
    by (rule conjunct1)
  from h have lm: "map Msg_LongName (File_Messages fl0) =
       [''Outer'', ''Outer.Inner'', ''Outer.Inner.Deep'', ''Outer.Side'', ''Base'']"
    by (rule conjunct2 [THEN conjunct1])
  from h have le: "map Enum_LongName (File_Enums fl0) = [''Zone'', ''Outer.Kind'', ''Outer.Inner.Mode'']"
    by (rule conjunct2 [THEN conjunct2])
  have n: "newFile ext nestedFile = Inr (sortFile ext fl0)"
    by (simp add: newFile_def fl0)
  have fm: "File_Messages (sortFile ext fl0) = Sort ext Msg_LongName (File_Messages fl0)"
    and fe: "File_Enums (sortFile ext fl0) = Sort ext Enum_LongName (File_Enums fl0)"
    by (simp_all add: sortFile_def)
  have m: "map Msg_LongName (File_Messages (sortFile ext fl0)) =
      [''Base'', ''Outer'', ''Outer.Inner'', ''Outer.Inner.Deep'', ''Outer.Side'']"
    unfolding fm map_Sort [OF c] lm by (rule sort_nested_names(1))
  have e: "map Enum_LongName (File_Enums (sortFile ext fl0)) =
      [''Outer.Inner.Mode'', ''Outer.Kind'', ''Zone'']"
    unfolding fe map_Sort [OF c] le by (rule sort_nested_names(2))
  show ?thesis
    unfolding n by (simp add: m e)
qed

text \<open>
  C7.  The traversal of a message appends to the flat collections of the file one
  \<open>Message\<close> record for every message of its tree, in depth-first order with a parent
  before its children and the children in the order of their declaration, and one
  \<open>Enum\<close> record for every enum nested directly in one of these messages, in the same
  order; it panics exactly when the parser of one of the messages does.  Before the
  sort the collections of a file hold these records in the order of discovery (the
  enums of the file first); after the sort they hold the same records.  The message
  \<open>Inner\<close> nested in \<open>Outer\<close> is a record of the flat collection, with the long name
  \<open>Outer.Inner\<close>, and so is \<open>Deep\<close>, nested in \<open>Inner\<close>.
\<close>

theorem addFromMessage_flattens:
  "addFromMessage ext m fl =
     (case mapE (parseMessage ext) (preorder m) of
        Inl e \<Rightarrow> Inl e
      | Inr msgs \<Rightarrow>
          Inr (fl\<lparr>File_Messages := File_Messages fl @ msgs,
                  File_Enums := File_Enums fl @ nestedEnums ext (preorder m)\<rparr>)) \<and>
   preorder m = m # concat (map preorder (d_Messages m)) \<and>
   nestedEnums ext ms = concat (map (\<lambda>m. map (parseEnum ext) (d_Enums m)) ms) \<and>
   allMessages f = concat (map preorder (fd_Messages f)) \<and>
   (populateFile ext f = Inl e \<longleftrightarrow> mapE (parseMessage ext) (allMessages f) = Inl e) \<and>
   (\<forall>fl0. populateFile ext f = Inr fl0 \<longrightarrow>
      map (parseMessage ext) (allMessages f) = map Inr (File_Messages fl0) \<and>
      File_Enums fl0 = map (parseEnum ext) (fd_Enums f) @ nestedEnums ext (allMessages f)) \<and>
   (sortContract (sortSort ext) \<longrightarrow>
      (\<forall>fl1. newFile ext f = Inr fl1 \<longrightarrow>
         mset (map Inr (File_Messages fl1)) = mset (map (parseMessage ext) (allMessages f)) \<and>
         mset (File_Enums fl1) =
           mset (map (parseEnum ext) (fd_Enums f) @ nestedEnums ext (allMessages f)))) \<and>
   map d_LongName (allMessages nestedFile) =
     [''Outer'', ''Outer.Inner'', ''Outer.Inner.Deep'', ''Outer.Side'', ''Base''] \<and>
   map_sum id (\<lambda>fl. (map Msg_LongName (File_Messages fl), map Enum_LongName (File_Enums fl)))
     (populateFile ext nestedFile) =
     Inr ([''Outer'', ''Outer.Inner'', ''Outer.Inner.Deep'', ''Outer.Side'', ''Base''],
          [''Zone'', ''Outer.Kind'', ''Outer.Inner.Mode'']) \<and>
   (sortContract (sortSort ext) \<longrightarrow>
      map_sum id (\<lambda>fl. (map Msg_LongName (File_Messages fl), map Enum_LongName (File_Enums fl)))
        (newFile ext nestedFile) =
        Inr ([''Base'', ''Outer'', ''Outer.Inner'', ''Outer.Inner.Deep'', ''Outer.Side''],
             [''Outer.Inner.Mode'', ''Outer.Kind'', ''Zone'']))"
proof (intro conjI allI impI)
  show "addFromMessage ext m fl =
     (case mapE (parseMessage ext) (preorder m) of
        Inl e \<Rightarrow> Inl e
      | Inr msgs \<Rightarrow>
          Inr (fl\<lparr>File_Messages := File_Messages fl @ msgs,
                  File_Enums := File_Enums fl @ nestedEnums ext (preorder m)\<rparr>))"
    by (rule addFrom_preorder(1))
  show "preorder m = m # concat (map preorder (d_Messages m))"
    by (rule preorder.simps)
  show "nestedEnums ext ms = concat (map (\<lambda>m. map (parseEnum ext) (d_Enums m)) ms)"
    by (rule nestedEnums_def)
  show "allMessages f = concat (map preorder (fd_Messages f))"
    by (rule allMessages_def)
  show "populateFile ext f = Inl e \<longleftrightarrow> mapE (parseMessage ext) (allMessages f) = Inl e"
    by (rule populateFile_Inl)
  show "map d_LongName (allMessages nestedFile) =
     [''Outer'', ''Outer.Inner'', ''Outer.Inner.Deep'', ''Outer.Side'', ''Base'']"
    by (rule allMessages_nestedFile_names)
  show "map_sum id (\<lambda>fl. (map Msg_LongName (File_Messages fl), map Enum_LongName (File_Enums fl)))
     (populateFile ext nestedFile) =
     Inr ([''Outer'', ''Outer.Inner'', ''Outer.Inner.Deep'', ''Outer.Side'', ''Base''],
          [''Zone'', ''Outer.Kind'', ''Outer.Inner.Mode''])"
    by (rule populateFile_nestedFile_names)
next
  fix fl0
  assume p: "populateFile ext f = Inr fl0"
  show "map (parseMessage ext) (allMessages f) = map Inr (File_Messages fl0)"
    by (rule populateFile_Inr(1) [OF p])
  show "File_Enums fl0 = map (parseEnum ext) (fd_Enums f) @ nestedEnums ext (allMessages f)"
    by (rule populateFile_Inr(2) [OF p])
next
  fix fl1
  assume c: "sortContract (sortSort ext)" and n: "newFile ext f = Inr fl1"
  show "mset (map Inr (File_Messages fl1)) = mset (map (parseMessage ext) (allMessages f))"
    by (rule newFile_mset(1) [OF c n])
  show "mset (File_Enums fl1) =
           mset (map (parseEnum ext) (fd_Enums f) @ nestedEnums ext (allMessages f))"
    by (rule newFile_mset(2) [OF c n])
next
  assume c: "sortContract (sortSort ext)"
  show "map_sum id (\<lambda>fl. (map Msg_LongName (File_Messages fl), map Enum_LongName (File_Enums fl)))
        (newFile ext nestedFile) =
        Inr ([''Base'', ''Outer'', ''Outer.Inner'', ''Outer.Inner.Deep'', ''Outer.Side''],
             [''Outer.Inner.Mode'', ''Outer.Kind'', ''Zone''])"
    by (rule newFile_nestedFile_names [OF c])
qed

theorem addFromMessage_flattens_witness:
  "sortContract (sortSort testExternals) \<and>
   map_sum id (\<lambda>fl. (map Msg_LongName (File_Messages fl), map Enum_LongName (File_Enums fl)))
     (newFile testExternals nestedFile) =
     Inr ([''Base'', ''Outer'', ''Outer.Inner'', ''Outer.Inner.Deep'', ''Outer.Side''],
          [''Outer.Inner.Mode'', ''Outer.Kind'', ''Zone''])"
proof -
  have c: "sortContract (sortSort testExternals)"
    by (simp add: sortContract_def testExternals_def)
  note T = addFromMessage_flattens [where ext = testExternals]
  show ?thesis
    by (rule conjI [OF c T [THEN conjunct2, THEN conjunct2, THEN conjunct2, THEN conjunct2,
      THEN conjunct2, THEN conjunct2, THEN conjunct2, THEN conjunct2, THEN conjunct2,
      THEN mp, OF c]])
qed

subsection \<open>Ordering of the collections\<close>

lemma description_plain:
  "description ext ''first'' = ''first''"
  "description ext ''second'' = ''second''"
  "description ext '''' = ''''"
  by (simp_all add: description_reindent TrimLeft_def reindent.simps HasPrefix_def)

lemma parseEnum_simpleEnum:
  assumes "description ext c = c" and "\<not> Contains c ''@exclude''"
  shows "parseEnum ext (simpleEnum name longName c) =
     \<lparr>Enum_Name = name, Enum_LongName = longName, Enum_FullName = ''com.example.'' @ longName,
      Enum_Description = c, Enum_Values = [], Enum_Exclude = False,
      Enum_Options = mergeOptions [[], Transform ext []]\<rparr>"
  using assms
  by (simp add: parseEnum_def simpleEnum_def Exclude_def newDirective_def extractOptions_def)

lemma populateFile_tiedFile:
  "populateFile ext tiedFile =
     Inr \<lparr>File_Name = ''Vehicle.proto'',
          File_Description = description ext ''Messages describing vehicles.'',
          File_Package = ''com.example'', File_HasEnums = True, File_HasExtensions = False,
          File_HasMessages = False, File_HasServices = False,
          File_Enums = map (parseEnum ext) (fd_Enums tiedFile),
          File_Extensions = [], File_Messages = [], File_Services = [],
          File_Options = mergeOptions [[], Transform ext []]\<rparr>"
  by (simp add: populateFile_eq allMessages_def tiedFile_def emptyFile_def nestedEnums_def
      extractOptions_def)

text \<open>The steps of \<open>pdqsort\<close> on the long names of the thirteen enums of \<open>tiedFile\<close>, and
  its result on seven names (an insertion sort, which keeps the equal names in their
  order).\<close>

lemma pdqsort_tied_steps:
  "choosePivot [''Zone'', ''Zone'', ''Area'', ''Base'', ''Code'', ''Date'', ''Kind'', ''Lane'',
                ''Mode'', ''Name'', ''Rate'', ''Size'', ''Unit''] [0..<13] 0 13 = (6, 0)"
  "\<not> partialInsertionSort [''Zone'', ''Zone'', ''Area'', ''Base'', ''Code'', ''Date'', ''Kind'',
                ''Lane'', ''Mode'', ''Name'', ''Rate'', ''Size'', ''Unit''] [0..<13] 0 13"
  "partitionData [''Zone'', ''Zone'', ''Area'', ''Base'', ''Code'', ''Date'', ''Kind'', ''Lane'',
                  ''Mode'', ''Name'', ''Rate'', ''Size'', ''Unit''] [0..<13] 0 13 6 =
     ([4, 5, 2, 3, 6, 1, 0, 7, 8, 9, 10, 11, 12], 4, False)"
  by code_simp+

lemma pdqsort_seven:
  "pdqsort [''Kind'', ''Kind'', ''Mode'', ''Rate'', ''Unit'', ''Zone'', ''Area''] [0..<7] =
     [6, 0, 1, 2, 3, 4, 5]"
  by code_simp

lemma pdqsort_tied:
  "pdqsort [''Zone'', ''Zone'', ''Area'', ''Base'', ''Code'', ''Date'', ''Kind'', ''Lane'', ''Mode'',
            ''Name'', ''Rate'', ''Size'', ''Unit''] [0..<13] =
     [2, 3, 4, 5, 6, 7, 8, 9, 10, 11, 12, 1, 0]"
  by code_simp

lemma enums_tiedFile:
  "map (\<lambda>e. (Enum_LongName e, Enum_Description e)) (map (parseEnum ext) (fd_Enums tiedFile)) =
     [(''Zone'', ''first''), (''Zone'', ''second''), (''Area'', ''''), (''Base'', ''''),
      (''Code'', ''''), (''Date'', ''''), (''Kind'', ''''), (''Lane'', ''''), (''Mode'', ''''),
      (''Name'', ''''), (''Rate'', ''''), (''Size'', ''''), (''Unit'', '''')]"
  by (simp add: tiedFile_def emptyFile_def parseEnum_simpleEnum description_plain Contains_def
      HasPrefix_def)

lemma Sort_pdqsort_tied:
  assumes "map key xs = [''Zone'', ''Zone'', ''Area'', ''Base'', ''Code'', ''Date'', ''Kind'',
      ''Lane'', ''Mode'', ''Name'', ''Rate'', ''Size'', ''Unit'']"
  shows "Sort pdqsortExternals key xs =
     [xs ! 2, xs ! 3, xs ! 4, xs ! 5, xs ! 6, xs ! 7, xs ! 8, xs ! 9, xs ! 10, xs ! 11, xs ! 12,
      xs ! 1, xs ! 0]"
proof -
  have "length (map key xs) = 13"
    unfolding assms by simp
  then have "[0..<length (map key xs)] = [0..<13]"
    by simp
  then show ?thesis
    unfolding Sort_def pdqsortExternals_def by (simp add: assms pdqsort_tied del: upt_rec_numeral)
qed

lemma newFile_pdqsort_tied:
  "map_sum id (\<lambda>fl. map (\<lambda>e. (Enum_LongName e, Enum_Description e)) (File_Enums fl))
     (newFile pdqsortExternals tiedFile) =
     Inr [(''Area'', ''''), (''Base'', ''''), (''Code'', ''''), (''Date'', ''''), (''Kind'', ''''),
          (''Lane'', ''''), (''Mode'', ''''), (''Name'', ''''), (''Rate'', ''''), (''Size'', ''''),
          (''Unit'', ''''), (''Zone'', ''second''), (''Zone'', ''first'')]"
proof -
  have k: "map Enum_LongName (map (parseEnum pdqsortExternals) (fd_Enums tiedFile)) =
      [''Zone'', ''Zone'', ''Area'', ''Base'', ''Code'', ''Date'', ''Kind'', ''Lane'', ''Mode'',
       ''Name'', ''Rate'', ''Size'', ''Unit'']"
    using enums_tiedFile [of pdqsortExternals, THEN arg_cong, of "map fst"] by (simp add: comp_def)
  have len: "length (map (parseEnum pdqsortExternals) (fd_Enums tiedFile)) = 13"
    by (simp add: tiedFile_def)
  have "map (\<lambda>e. (Enum_LongName e, Enum_Description e))
          (Sort pdqsortExternals Enum_LongName (map (parseEnum pdqsortExternals) (fd_Enums tiedFile))) =
     [(''Area'', ''''), (''Base'', ''''), (''Code'', ''''), (''Date'', ''''), (''Kind'', ''''),
          (''Lane'', ''''), (''Mode'', ''''), (''Name'', ''''), (''Rate'', ''''), (''Size'', ''''),
          (''Unit'', ''''), (''Zone'', ''second''), (''Zone'', ''first'')]"
    unfolding Sort_pdqsort_tied [OF k]
    using enums_tiedFile [of pdqsortExternals, THEN arg_cong,
        of "\<lambda>l. [l ! 2, l ! 3, l ! 4, l ! 5, l ! 6, l ! 7, l ! 8, l ! 9, l ! 10, l ! 11, l ! 12,
                 l ! 1, l ! 0]"]
      len
    by (simp del: map_map)
  then show ?thesis
    by (simp add: newFile_def populateFile_tiedFile sortFile_def del: map_map)
qed

lemma NewTemplate_pdqsort_tied:
  "map_sum id
     (\<lambda>(t, printed).
        map (\<lambda>fl. map (\<lambda>e. (Enum_LongName e, Enum_Description e)) (File_Enums fl)) (Files t))
     (NewTemplate pdqsortExternals [tiedFile]) =
     Inr [[(''Area'', ''''), (''Base'', ''''), (''Code'', ''''), (''Date'', ''''), (''Kind'', ''''),
           (''Lane'', ''''), (''Mode'', ''''), (''Name'', ''''), (''Rate'', ''''), (''Size'', ''''),
           (''Unit'', ''''), (''Zone'', ''second''), (''Zone'', ''first'')]]"
proof -
  obtain fl where n: "newFile pdqsortExternals tiedFile = Inr fl"
    by (simp add: newFile_def populateFile_tiedFile)
  from newFile_pdqsort_tied
  have e: "map (\<lambda>e. (Enum_LongName e, Enum_Description e)) (File_Enums fl) =
     [(''Area'', ''''), (''Base'', ''''), (''Code'', ''''), (''Date'', ''''), (''Kind'', ''''),
          (''Lane'', ''''), (''Mode'', ''''), (''Name'', ''''), (''Rate'', ''''), (''Size'', ''''),
          (''Unit'', ''''), (''Zone'', ''second''), (''Zone'', ''first'')]"
    unfolding n by simp
  show ?thesis
    by (simp add: NewTemplate_def n e split: prod.splits del: map_map)
qed

text \<open>
  C1 (as stated).  Entries with equal long names do not always remain in the order of
  their discovery: \<open>sort.Sort\<close> is not a stable sort.  With the sort of the Go releases
  from 1.19 on, the thirteen enums \<open>Zone\<close>, \<open>Zone\<close>, \<open>Area\<close>, \<open>Base\<close>, \<open>Code\<close>, \<open>Date\<close>,
  \<open>Kind\<close>, \<open>Lane\<close>, \<open>Mode\<close>, \<open>Name\<close>, \<open>Rate\<close>, \<open>Size\<close>, \<open>Unit\<close> of a file, discovered
  in this order, come out of \<open>NewTemplate\<close> with the second \<open>Zone\<close> before the first.  The
  slice has more than twelve elements and is not sorted, so it is partitioned: the pivot
  \<open>Kind\<close> (position 6, the median of the positions 3, 6 and 9) is exchanged with the
  first \<open>Zone\<close> at position 0, which thereby comes to stand behind the second \<open>Zone\<close>,
  and the insertion sort of the part behind the pivot leaves the two in that order.  The
  sort meets the contract of \<open>sort.Sort\<close>: its result is sorted and holds the same
  elements.
\<close>

theorem ties_in_discovery_order_counterexample:
  "map_sum id (\<lambda>fl. map (\<lambda>e. (Enum_LongName e, Enum_Description e)) (File_Enums fl))
     (populateFile pdqsortExternals tiedFile) =
     Inr [(''Zone'', ''first''), (''Zone'', ''second''), (''Area'', ''''), (''Base'', ''''),
          (''Code'', ''''), (''Date'', ''''), (''Kind'', ''''), (''Lane'', ''''), (''Mode'', ''''),
          (''Name'', ''''), (''Rate'', ''''), (''Size'', ''''), (''Unit'', '''')] \<and>
   map_sum id (\<lambda>fl. map (\<lambda>e. (Enum_LongName e, Enum_Description e)) (File_Enums fl))
     (newFile pdqsortExternals tiedFile) =
     Inr [(''Area'', ''''), (''Base'', ''''), (''Code'', ''''), (''Date'', ''''), (''Kind'', ''''),
          (''Lane'', ''''), (''Mode'', ''''), (''Name'', ''''), (''Rate'', ''''), (''Size'', ''''),
          (''Unit'', ''''), (''Zone'', ''second''), (''Zone'', ''first'')] \<and>
   map_sum id
     (\<lambda>(t, printed).
        map (\<lambda>fl. map (\<lambda>e. (Enum_LongName e, Enum_Description e)) (File_Enums fl)) (Files t))
     (NewTemplate pdqsortExternals [tiedFile]) =
     Inr [[(''Area'', ''''), (''Base'', ''''), (''Code'', ''''), (''Date'', ''''), (''Kind'', ''''),
           (''Lane'', ''''), (''Mode'', ''''), (''Name'', ''''), (''Rate'', ''''), (''Size'', ''''),
           (''Unit'', ''''), (''Zone'', ''second''), (''Zone'', ''first'')]] \<and>
   sortContract (sortSort pdqsortExternals)"
proof (intro conjI)
  show "sortContract (sortSort pdqsortExternals)"
    by (rule sortContract_pdqsortExternals)
next
  show "map_sum id (\<lambda>fl. map (\<lambda>e. (Enum_LongName e, Enum_Description e)) (File_Enums fl))
     (populateFile pdqsortExternals tiedFile) =
     Inr [(''Zone'', ''first''), (''Zone'', ''second''), (''Area'', ''''), (''Base'', ''''),
          (''Code'', ''''), (''Date'', ''''), (''Kind'', ''''), (''Lane'', ''''), (''Mode'', ''''),
          (''Name'', ''''), (''Rate'', ''''), (''Size'', ''''), (''Unit'', '''')]"
    unfolding populateFile_tiedFile by (simp add: enums_tiedFile del: map_map)
next
  show "map_sum id (\<lambda>fl. map (\<lambda>e. (Enum_LongName e, Enum_Description e)) (File_Enums fl))
     (newFile pdqsortExternals tiedFile) =
     Inr [(''Area'', ''''), (''Base'', ''''), (''Code'', ''''), (''Date'', ''''), (''Kind'', ''''),
          (''Lane'', ''''), (''Mode'', ''''), (''Name'', ''''), (''Rate'', ''''), (''Size'', ''''),
          (''Unit'', ''''), (''Zone'', ''second''), (''Zone'', ''first'')]"
    by (rule newFile_pdqsort_tied)
next
  show "map_sum id
     (\<lambda>(t, printed).
        map (\<lambda>fl. map (\<lambda>e. (Enum_LongName e, Enum_Description e)) (File_Enums fl)) (Files t))
     (NewTemplate pdqsortExternals [tiedFile]) =
     Inr [[(''Area'', ''''), (''Base'', ''''), (''Code'', ''''), (''Date'', ''''), (''Kind'', ''''),
           (''Lane'', ''''), (''Mode'', ''''), (''Name'', ''''), (''Rate'', ''''), (''Size'', ''''),
           (''Unit'', ''''), (''Zone'', ''second''), (''Zone'', ''first'')]]"
    by (rule NewTemplate_pdqsort_tied)
qed

lemma NewTemplate_Files:
  assumes "NewTemplate ext descs = Inr (t, printed)"
  shows "map (newFile ext) descs = map Inr (Files t)"
proof (cases "mapE (newFile ext) descs")
  case (Inl e)
  with assms show ?thesis
    by (simp add: NewTemplate_def)
next
  case (Inr files)
  from assms have "Files t = files"
    unfolding NewTemplate_Inr [OF Inr] by auto
  with Inr show ?thesis
    by (simp add: mapE_Inr_iff)
qed

lemma parseMessage_Fields:
  assumes "parseMessage ext d = Inr m"
  shows "map (\<lambda>pf. parseMessageField ext pf (d_OneofDecl d)) (d_Fields d) = map Inr (Msg_Fields m)"
proof -
  from assms have "mapE (\<lambda>pf. parseMessageField ext pf (d_OneofDecl d)) (d_Fields d) =
      Inr (Msg_Fields m)"
    by (auto simp add: parseMessage_def Let_def split: prod.splits sum.splits)
  then show ?thesis
    by (simp add: mapE_Inr_iff)
qed

lemma parseMessageField_Name: "parseMessageField ext pf decls = Inr mf \<Longrightarrow> MField_Name mf = pf_Name pf"
  by (auto simp add: parseMessageField_def Let_def split: prod.splits option.splits if_splits)

lemma map_MField_Name:
  "map (\<lambda>pf. parseMessageField ext pf decls) pfs = map Inr mfs \<Longrightarrow>
   map MField_Name mfs = map pf_Name pfs"
proof (induction pfs arbitrary: mfs)
  case Nil
  then show ?case by simp
next
  case (Cons pf pfs)
  then show ?case
    by (cases mfs) (auto simp add: parseMessageField_Name)
qed

lemma parseEnum_Values:
  "map EValue_Name (Enum_Values (parseEnum ext ed)) = map evd_Name (ed_Values ed)"
  "map EValue_Number (Enum_Values (parseEnum ext ed)) = map (\<lambda>v. Sprint (evd_Number v)) (ed_Values ed)"
  by (simp_all add: parseEnum_def Let_def comp_def split: prod.splits)

lemma parseService_Methods:
  "Svc_Methods (parseService ext sd) = map (parseServiceMethod ext) (sd_Methods sd)"
  "map Method_Name (Svc_Methods (parseService ext sd)) = map md_Name (sd_Methods sd)"
  by (simp_all add: parseService_def parseServiceMethod_def Let_def comp_def split: prod.splits)

text \<open>
  C1 (amended).  In every file that \<open>NewTemplate\<close> produces, each of the four top-level
  collections is in non-decreasing order of the long names, compared byte by byte, and
  holds exactly the records that were discovered (the enums of the file and those nested
  in its messages, its extensions, the messages of its trees, its services); the order
  of entries with equal long names is not determined.  The fields of a message, the
  values of an enum and the methods of a service are in the order of their declaration
  in the descriptor.
\<close>

theorem collections_sorted:
  "(sortContract (sortSort ext) \<longrightarrow>
      (\<forall>fl. newFile ext f = Inr fl \<longrightarrow>
         sorted (map Enum_LongName (File_Enums fl)) \<and>
         sorted (map FExt_LongName (File_Extensions fl)) \<and>
         sorted (map Msg_LongName (File_Messages fl)) \<and>
         sorted (map Svc_LongName (File_Services fl)) \<and>
         mset (File_Enums fl) =
           mset (map (parseEnum ext) (fd_Enums f) @ nestedEnums ext (allMessages f)) \<and>
         mset (File_Extensions fl) = mset (map (parseFileExtension ext) (fd_Extensions f)) \<and>
         mset (map Inr (File_Messages fl)) = mset (map (parseMessage ext) (allMessages f)) \<and>
         mset (File_Services fl) = mset (map (parseService ext) (fd_Services f)))) \<and>
   (\<forall>t printed. NewTemplate ext descs = Inr (t, printed) \<longrightarrow>
      map (newFile ext) descs = map Inr (Files t)) \<and>
   (\<forall>m. parseMessage ext d = Inr m \<longrightarrow>
      map (\<lambda>pf. parseMessageField ext pf (d_OneofDecl d)) (d_Fields d) = map Inr (Msg_Fields m) \<and>
      map MField_Name (Msg_Fields m) = map pf_Name (d_Fields d)) \<and>
   map EValue_Name (Enum_Values (parseEnum ext ed)) = map evd_Name (ed_Values ed) \<and>
   map EValue_Number (Enum_Values (parseEnum ext ed)) =
     map (\<lambda>v. Sprint (evd_Number v)) (ed_Values ed) \<and>
   Svc_Methods (parseService ext sd) = map (parseServiceMethod ext) (sd_Methods sd) \<and>
   map Method_Name (Svc_Methods (parseService ext sd)) = map md_Name (sd_Methods sd)"
proof (intro conjI allI impI)
  fix fl
  assume c: "sortContract (sortSort ext)" and n: "newFile ext f = Inr fl"
  show "sorted (map Enum_LongName (File_Enums fl))"
    by (rule newFile_sorted(1) [OF c n])
  show "sorted (map FExt_LongName (File_Extensions fl))"
    by (rule newFile_sorted(2) [OF c n])
  show "sorted (map Msg_LongName (File_Messages fl))"
    by (rule newFile_sorted(3) [OF c n])
  show "sorted (map Svc_LongName (File_Services fl))"
    by (rule newFile_sorted(4) [OF c n])
  show "mset (File_Enums fl) =
           mset (map (parseEnum ext) (fd_Enums f) @ nestedEnums ext (allMessages f))"
    by (rule newFile_mset(2) [OF c n])
  show "mset (File_Extensions fl) = mset (map (parseFileExtension ext) (fd_Extensions f))"
    by (rule newFile_mset(3) [OF c n])
  show "mset (map Inr (File_Messages fl)) = mset (map (parseMessage ext) (allMessages f))"
    by (rule newFile_mset(1) [OF c n])
  show "mset (File_Services fl) = mset (map (parseService ext) (fd_Services f))"
    by (rule newFile_mset(4) [OF c n])
next
  fix t printed
  assume "NewTemplate ext descs = Inr (t, printed)"
  then show "map (newFile ext) descs = map Inr (Files t)"
    by (rule NewTemplate_Files)
next
  fix m
  assume p: "parseMessage ext d = Inr m"
  show "map (\<lambda>pf. parseMessageField ext pf (d_OneofDecl d)) (d_Fields d) = map Inr (Msg_Fields m)"
    by (rule parseMessage_Fields [OF p])
  then show "map MField_Name (Msg_Fields m) = map pf_Name (d_Fields d)"
    by (rule map_MField_Name)
next
  show "map EValue_Name (Enum_Values (parseEnum ext ed)) = map evd_Name (ed_Values ed)"
    by (rule parseEnum_Values(1))
  show "map EValue_Number (Enum_Values (parseEnum ext ed)) =
     map (\<lambda>v. Sprint (evd_Number v)) (ed_Values ed)"
    by (rule parseEnum_Values(2))
  show "Svc_Methods (parseService ext sd) = map (parseServiceMethod ext) (sd_Methods sd)"
    by (rule parseService_Methods(1))
  show "map Method_Name (Svc_Methods (parseService ext sd)) = map md_Name (sd_Methods sd)"
    by (rule parseService_Methods(2))
qed

theorem collections_sorted_witness:
  "sortContract (sortSort pdqsortExternals) \<and>
   (\<exists>fl. newFile pdqsortExternals tiedFile = Inr fl \<and>
      sorted (map Enum_LongName (File_Enums fl)) \<and>
      mset (File_Enums fl) =
        mset (map (parseEnum pdqsortExternals) (fd_Enums tiedFile) @
              nestedEnums pdqsortExternals (allMessages tiedFile)))"
proof -
  have c: "sortContract (sortSort pdqsortExternals)"
    by (rule sortContract_pdqsortExternals)
  obtain fl where n: "newFile pdqsortExternals tiedFile = Inr fl"
    by (simp add: newFile_def populateFile_tiedFile)
  note T = collections_sorted [where ext = pdqsortExternals and f = tiedFile,
      THEN conjunct1, THEN mp, OF c, THEN spec, THEN mp, OF n]
  from T have "sorted (map Enum_LongName (File_Enums fl))"
    by (rule conjunct1)
  moreover from T have "mset (File_Enums fl) =
        mset (map (parseEnum pdqsortExternals) (fd_Enums tiedFile) @
              nestedEnums pdqsortExternals (allMessages tiedFile))"
    by (rule conjunct2 [THEN conjunct2, THEN conjunct2, THEN conjunct2, THEN conjunct1])
  ultimately show ?thesis
    using c n by blast
qed

end
